theory Spec2Isabelle
  imports Complex_Main "HOL-Library.Sublist" "HOL-Library.Char_ord" "HOL-Library.List_Lexorder"
begin

section \<open>Python strings\<close>

text \<open>
  Python \<open>str\<close> values are modelled as \<open>string\<close> (a list of characters). The
  operations below are the ones the scanner code uses: \<open>sub in s\<close>, \<open>s.startswith(p)\<close>,
  \<open>s.lower()\<close> (on the ASCII letters; every other character is left as it is),
  \<open>s.strip()\<close> and \<open>s.split(sep)\<close>.
\<close>

definition sq :: char where "sq = CHR 0x27"
definition dq :: char where "dq = CHR 0x22"
definition newline :: char where "newline = CHR 0x0A"

fun contains :: "string \<Rightarrow> string \<Rightarrow> bool" where
  "contains sub [] = (sub = [])"
| "contains sub (c # cs) = (prefix sub (c # cs) \<or> contains sub cs)"

definition startswith :: "string \<Rightarrow> string \<Rightarrow> bool" where
  "startswith s p = prefix p s"

definition endswith :: "string \<Rightarrow> string \<Rightarrow> bool" where
  "endswith s p = suffix p s"

definition ascii_upper :: string where
  "ascii_upper = ''ABCDEFGHIJKLMNOPQRSTUVWXYZ''"

definition ascii_lower :: string where
  "ascii_lower = ''abcdefghijklmnopqrstuvwxyz''"

definition lower_char :: "char \<Rightarrow> char" where
  "lower_char c = (case map_of (zip ascii_upper ascii_lower) c of Some d \<Rightarrow> d | None \<Rightarrow> c)"

definition lower :: "string \<Rightarrow> string" where
  "lower s = map lower_char s"

section \<open>The service scanner: \<open>app/services/scanner/sql_injection.py\<close>\<close>

subsection \<open>Data\<close>

text \<open>
  The dictionaries built by \<open>_make_baseline_request\<close> and \<open>_make_malicious_request\<close>:
  \<open>content_length\<close> is \<open>len(response.text)\<close> and \<open>response_time\<close> a difference of
  two clock readings. Python floats are modelled as reals.
\<close>

record response_data =
  content :: string
  status_code :: int
  response_time :: real
  content_length :: nat

datatype risk = CRITICAL | HIGH | MEDIUM | LOW

record payload_info =
  pname :: string
  payload :: string
  ptype :: string
  prisk :: risk
  description :: string

text \<open>The evidence dictionaries: string keys, values of the kinds the code stores.\<close>

datatype ev_value =
  EvBool bool | EvInt int | EvNum real | EvStr string | EvList "string list"

type_synonym evidence = "(string \<times> ev_value) list"

datatype py_error = ZeroDivisionError | KeyError | ValueError

text \<open>\<open>a / b\<close> on numbers raises \<open>ZeroDivisionError\<close> when \<open>b\<close> is zero.\<close>

definition py_truediv :: "nat \<Rightarrow> nat \<Rightarrow> py_error + real" where
  "py_truediv a b = (if b = 0 then Inl ZeroDivisionError else Inr (real a / real b))"

definition abs_diff :: "nat \<Rightarrow> nat \<Rightarrow> nat" where
  "abs_diff a b = nat \<bar>int a - int b\<bar>"

subsection \<open>The payload catalogue (\<open>_load_sql_payloads\<close>)\<close>

definition payloads :: "payload_info list" where
  "payloads = [
     \<lparr>pname = ''Single Quote Error Test'', payload = [sq], ptype = ''error_based'',
      prisk = HIGH, description = ''Basic single quote to trigger SQL syntax error''\<rparr>,
     \<lparr>pname = ''Double Quote Error Test'', payload = [dq], ptype = ''error_based'',
      prisk = HIGH, description = ''Double quote to trigger SQL syntax error''\<rparr>,
     \<lparr>pname = ''Boolean OR True'', payload = ''1' OR '1'='1'', ptype = ''boolean_based'',
      prisk = HIGH, description = ''Boolean-based injection with always true condition''\<rparr>,
     \<lparr>pname = ''Boolean AND True'', payload = ''1' AND '1'='1'', ptype = ''boolean_based'',
      prisk = MEDIUM, description = ''Boolean-based injection with true condition''\<rparr>,
     \<lparr>pname = ''Boolean AND False'', payload = ''1' AND '1'='2'', ptype = ''boolean_based'',
      prisk = MEDIUM, description = ''Boolean-based injection with false condition''\<rparr>,
     \<lparr>pname = ''Union Select Version'', payload = ''1' UNION SELECT null,version()--'',
      ptype = ''union_based'', prisk = CRITICAL,
      description = ''Union-based injection to extract database version''\<rparr>,
     \<lparr>pname = ''Union Select Database'', payload = ''1' UNION SELECT null,database()--'',
      ptype = ''union_based'', prisk = CRITICAL,
      description = ''Union-based injection to extract database name''\<rparr>,
     \<lparr>pname = ''Union Select User'', payload = ''1' UNION SELECT null,user()--'',
      ptype = ''union_based'', prisk = CRITICAL,
      description = ''Union-based injection to extract database user''\<rparr>,
     \<lparr>pname = ''Time-based Blind MySQL'', payload = ''1' AND SLEEP(5)--'',
      ptype = ''time_based'', prisk = HIGH,
      description = ''Time-based blind injection using SLEEP function''\<rparr>,
     \<lparr>pname = ''Time-based Blind PostgreSQL'', payload = ''1'; SELECT pg_sleep(5)--'',
      ptype = ''time_based'', prisk = HIGH,
      description = ''Time-based blind injection for PostgreSQL''\<rparr>]"

subsection \<open>Error patterns and \<open>re.search\<close>\<close>

text \<open>
  The eight entries of \<open>error_patterns\<close> are regular expressions of two shapes only: a
  literal text, or two literal texts with \<open>.*\<close> between them. \<open>re.search\<close> of a literal
  is a substring test; \<open>a.*b\<close> is found when \<open>a\<close> occurs and \<open>b\<close> occurs after it with no
  line break in between (the dot does not match a line break).
\<close>

datatype pattern = Lit string | Gap string string

fun pattern_text :: "pattern \<Rightarrow> string" where
  "pattern_text (Lit a) = a"
| "pattern_text (Gap a b) = a @ ''.*'' @ b"

fun pattern_lower :: "pattern \<Rightarrow> pattern" where
  "pattern_lower (Lit a) = Lit (lower a)"
| "pattern_lower (Gap a b) = Gap (lower a) (lower b)"

fun any_then :: "string \<Rightarrow> string \<Rightarrow> bool" where
  "any_then b [] = (b = [])"
| "any_then b (c # cs) = (prefix b (c # cs) \<or> (c \<noteq> newline \<and> any_then b cs))"

fun gap_search :: "string \<Rightarrow> string \<Rightarrow> string \<Rightarrow> bool" where
  "gap_search a b [] = (a = [] \<and> b = [])"
| "gap_search a b (c # cs) =
     ((prefix a (c # cs) \<and> any_then b (drop (length a) (c # cs))) \<or> gap_search a b cs)"

fun re_search :: "pattern \<Rightarrow> string \<Rightarrow> bool" where
  "re_search (Lit a) s = contains a s"
| "re_search (Gap a b) s = gap_search a b s"

definition error_patterns :: "pattern list" where
  "error_patterns = [
     Gap ''SQL syntax'' ''error'',
     Lit ''mysqli_sql_exception'',
     Lit ''You have an error in your SQL syntax'',
     Lit ''Warning: mysql_'',
     Lit ''mysql_fetch_array'',
     Lit ''mysql_num_rows'',
     Lit ''ORA-01756'',
     Lit ''Microsoft OLE DB Provider'']"

definition sql_indicators :: "string list" where
  "sql_indicators = [''syntax error'', ''mysql'', ''sql'', ''database'', ''table'', ''column'',
     ''select'', ''union'', ''where'', ''from'', ''error'', ''warning'']"

subsection \<open>\<open>_detect_error_based\<close>\<close>

definition detect_error_based ::
    "response_data \<Rightarrow> response_data \<Rightarrow> bool \<times> real \<times> evidence" where
  "detect_error_based baseline_response malicious_response =
     (let malicious_content = lower (content malicious_response);
          matched = filter (\<lambda>p. re_search (pattern_lower p) malicious_content) error_patterns;
          status_changed = (status_code malicious_response \<noteq> status_code baseline_response
                            \<and> status_code malicious_response \<ge> 500);
          baseline_content = lower (content baseline_response);
          content_length_diff = abs_diff (length malicious_content) (length baseline_content);
          found = filter (\<lambda>i. contains i malicious_content \<and> \<not> contains i baseline_content)
                    sql_indicators;
          detected_errors = map pattern_text matched @ map (\<lambda>i. ''SQL indicator: '' @ i) found;
          indicator_found = (found \<noteq> [])
      in if detected_errors \<noteq> [] \<or> status_changed \<or> indicator_found \<or> content_length_diff > 50
         then (True,
               (if detected_errors \<noteq> [] then 0.9
                else if status_changed then 0.7
                else if indicator_found then 0.6
                else 0.5),
               [(''detected_errors'', EvList detected_errors),
                (''baseline_status'', EvInt (status_code baseline_response)),
                (''malicious_status'', EvInt (status_code malicious_response)),
                (''error_in_response'', EvBool (detected_errors \<noteq> [])),
                (''content_length_diff'', EvInt (int content_length_diff)),
                (''sql_indicators_found'', EvBool indicator_found)])
         else (False, 0, []))"

subsection \<open>\<open>_detect_boolean_based\<close>\<close>

text \<open>
  The body of the \<open>try\<close> block, with the division that could raise written out; the
  \<open>except\<close> branch of the source turns any exception into \<open>(False, 0.0, {})\<close>.
\<close>

definition length_ratio :: "nat \<Rightarrow> nat \<Rightarrow> py_error + real" where
  "length_ratio malicious_length baseline_length =
     (if baseline_length > 0 then py_truediv malicious_length baseline_length else Inr 0)"

definition boolean_evidence :: "nat \<Rightarrow> nat \<Rightarrow> real \<Rightarrow> evidence" where
  "boolean_evidence baseline_length malicious_length ratio =
     [(''baseline_length'', EvInt (int baseline_length)),
      (''malicious_length'', EvInt (int malicious_length)),
      (''length_difference'', EvInt (int (abs_diff malicious_length baseline_length))),
      (''length_ratio'', EvNum ratio)]"

definition boolean_verdict :: "string \<Rightarrow> nat \<Rightarrow> real \<Rightarrow> evidence \<Rightarrow> bool \<times> real \<times> evidence" where
  "boolean_verdict pl length_diff ratio ev =
     (if contains ''OR'' pl \<and> contains ''1'='1'' pl then
        (if ratio > 1.5 then (True, 0.8, ev)
         else if length_diff > 10 then (True, 0.7, ev)
         else (False, 0, ev))
      else if contains ''AND'' pl then
        (if contains ''1'='1'' pl then
           (if ratio > 0.8 \<and> ratio < 1.2 then (True, 0.7, ev) else (False, 0, ev))
         else if contains ''1'='2'' pl then
           (if ratio < 0.5 then (True, 0.7, ev) else (False, 0, ev))
         else (False, 0, ev))
      else (False, 0, ev))"

definition detect_boolean_based_body ::
    "response_data \<Rightarrow> response_data \<Rightarrow> payload_info \<Rightarrow> py_error + (bool \<times> real \<times> evidence)" where
  "detect_boolean_based_body baseline_response malicious_response info =
     (let baseline_length = content_length baseline_response;
          malicious_length = content_length malicious_response;
          length_diff = abs_diff malicious_length baseline_length
      in case length_ratio malicious_length baseline_length of
           Inl e \<Rightarrow> Inl e
         | Inr ratio \<Rightarrow>
             Inr (boolean_verdict (payload info) length_diff ratio
                    (boolean_evidence baseline_length malicious_length ratio)))"

definition detect_boolean_based ::
    "response_data \<Rightarrow> response_data \<Rightarrow> payload_info \<Rightarrow> bool \<times> real \<times> evidence" where
  "detect_boolean_based baseline_response malicious_response info =
     (case detect_boolean_based_body baseline_response malicious_response info of
        Inl e \<Rightarrow> (False, 0, [])
      | Inr r \<Rightarrow> r)"

subsection \<open>Facts about substring search\<close>

lemma contains_iff: "contains sub s \<longleftrightarrow> (\<exists>p q. s = p @ sub @ q)"
proof (induction s)
  case Nil
  then show ?case by auto
next
  case (Cons c cs)
  show ?case
  proof
    assume "contains sub (c # cs)"
    then consider "prefix sub (c # cs)" | "contains sub cs" by auto
    then show "\<exists>p q. c # cs = p @ sub @ q"
    proof cases
      case 1
      then obtain q where "c # cs = sub @ q" by (auto simp: prefix_def)
      then have "c # cs = [] @ sub @ q" by simp
      then show ?thesis by blast
    next
      case 2
      with Cons obtain p q where "cs = p @ sub @ q" by blast
      then have "c # cs = (c # p) @ sub @ q" by simp
      then show ?thesis by blast
    qed
  next
    assume "\<exists>p q. c # cs = p @ sub @ q"
    then obtain p q where pq: "c # cs = p @ sub @ q" by blast
    show "contains sub (c # cs)"
    proof (cases p)
      case Nil
      with pq have "prefix sub (c # cs)" by (simp add: prefix_def)
      then show ?thesis by simp
    next
      case (Cons a p')
      with pq have "cs = p' @ sub @ q" by simp
      with Cons.IH have "contains sub cs" by blast
      then show ?thesis by simp
    qed
  qed
qed

lemma contains_lower: "contains sub s \<Longrightarrow> contains (lower sub) (lower s)"
  unfolding contains_iff lower_def by (metis map_append)

subsection \<open>Error-based detection on the MySQL syntax error text\<close>

lemma sql_syntax_pattern_matched:
  assumes "contains ''You have an error in your SQL syntax'' (content m)"
  shows "filter (\<lambda>p. re_search (pattern_lower p) (lower (content m))) error_patterns \<noteq> []"
proof -
  let ?p = "Lit ''You have an error in your SQL syntax''"
  have a: "re_search (pattern_lower ?p) (lower (content m))"
    using contains_lower [OF assms] by simp
  have b: "?p \<in> set error_patterns" by (simp add: error_patterns_def)
  have "?p \<in> set (filter (\<lambda>p. re_search (pattern_lower p) (lower (content m))) error_patterns)"
    using a b by (simp only: set_filter mem_Collect_eq conj_commute)
  then show ?thesis by (metis empty_iff empty_set)
qed

lemma detect_error_based_matched:
  assumes "filter (\<lambda>p. re_search (pattern_lower p) (lower (content m))) error_patterns \<noteq> []"
  shows "\<exists>ev. detect_error_based b m = (True, 0.9, ev)"
  using assms unfolding detect_error_based_def Let_def by simp

text \<open>
  C4. Whenever the body of the probe response contains the text
  \<open>You have an error in your SQL syntax\<close>, error-based detection answers vulnerable with
  confidence 0.9 (so at least 0.8), whatever the probe's status code and whatever the
  baseline response is.
\<close>

theorem detect_error_based_sql_syntax:
  "contains ''You have an error in your SQL syntax'' (content m) \<Longrightarrow>
     (\<exists>ev. detect_error_based b m = (True, 0.9, ev)) \<and>
     fst (snd (detect_error_based b m)) \<ge> 0.8"
proof -
  assume a: "contains ''You have an error in your SQL syntax'' (content m)"
  from detect_error_based_matched [OF sql_syntax_pattern_matched [OF a]]
  obtain ev where e: "detect_error_based b m = (True, 0.9, ev)" by blast
  then show ?thesis by simp
qed

definition normal_response :: response_data where
  "normal_response = \<lparr>content = ''Normal response'', status_code = 200,
     response_time = 0.1, content_length = 15\<rparr>"

definition sql_error_response :: response_data where
  "sql_error_response = \<lparr>content = ''You have an error in your SQL syntax; check the manual'',
     status_code = 200, response_time = 0.1, content_length = 54\<rparr>"

theorem detect_error_based_sql_syntax_witness:
  "contains ''You have an error in your SQL syntax'' (content sql_error_response) \<and>
   (\<exists>ev. detect_error_based normal_response sql_error_response = (True, 0.9, ev)) \<and>
   fst (snd (detect_error_based normal_response sql_error_response)) \<ge> 0.8"
proof -
  have h: "contains ''You have an error in your SQL syntax'' (content sql_error_response)"
    by (simp add: sql_error_response_def)
  show ?thesis
    using h detect_error_based_sql_syntax [OF h, of normal_response] by blast
qed

subsection \<open>Boolean-based detection: the length ratio and the OR-true payload\<close>

lemma length_ratio_eq:
  "length_ratio m b = Inr (if b > 0 then real m / real b else 0)"
  by (simp add: length_ratio_def py_truediv_def)

lemma detect_boolean_based_body_eq:
  "detect_boolean_based_body b m info =
   Inr (boolean_verdict (payload info) (abs_diff (content_length m) (content_length b))
          (if content_length b > 0 then real (content_length m) / real (content_length b) else 0)
          (boolean_evidence (content_length b) (content_length m)
             (if content_length b > 0 then real (content_length m) / real (content_length b) else 0)))"
  unfolding detect_boolean_based_body_def Let_def length_ratio_eq by simp

lemma detect_boolean_based_eq:
  "detect_boolean_based b m info =
   boolean_verdict (payload info) (abs_diff (content_length m) (content_length b))
          (if content_length b > 0 then real (content_length m) / real (content_length b) else 0)
          (boolean_evidence (content_length b) (content_length m)
             (if content_length b > 0 then real (content_length m) / real (content_length b) else 0))"
  unfolding detect_boolean_based_def detect_boolean_based_body_eq by simp

lemma boolean_verdict_or_ratio:
  "contains ''OR'' pl \<Longrightarrow> contains ''1'='1'' pl \<Longrightarrow> ratio > 1.5 \<Longrightarrow>
   boolean_verdict pl d ratio ev = (True, 0.8, ev)"
  by (simp add: boolean_verdict_def)

lemma boolean_verdict_or_diff:
  "contains ''OR'' pl \<Longrightarrow> contains ''1'='1'' pl \<Longrightarrow> \<not> ratio > 1.5 \<Longrightarrow> d > 10 \<Longrightarrow>
   boolean_verdict pl d ratio ev = (True, 0.7, ev)"
  by (simp add: boolean_verdict_def)

lemma abs_diff_increase: "b + 10 < m \<Longrightarrow> abs_diff m b > 10"
  by (simp add: abs_diff_def)

text \<open>
  C5. For a payload of the OR-true kind (it contains \<open>OR\<close> and \<open>1'='1\<close>): when the probe's
  content length divided by the baseline's exceeds 1.5 the answer is vulnerable with
  confidence 0.8; otherwise, when the probe is more than 10 characters longer than the
  baseline, the answer is vulnerable with confidence 0.7. With baseline length 11 and probe
  length 33 the answer is vulnerable with a confidence above 0.6. (The empty baseline is
  the subject of C10.)
\<close>

theorem detect_boolean_based_or_true:
  assumes or_true: "contains ''OR'' (payload info)" "contains ''1'='1'' (payload info)"
  shows "(0 < content_length b \<and> real (content_length m) / real (content_length b) > 1.5 \<longrightarrow>
            detect_boolean_based b m info =
              (True, 0.8, boolean_evidence (content_length b) (content_length m)
                            (real (content_length m) / real (content_length b))))
       \<and> (0 < content_length b \<and> \<not> real (content_length m) / real (content_length b) > 1.5
            \<and> content_length b + 10 < content_length m \<longrightarrow>
            detect_boolean_based b m info =
              (True, 0.7, boolean_evidence (content_length b) (content_length m)
                            (real (content_length m) / real (content_length b))))
       \<and> (content_length b = 11 \<and> content_length m = 33 \<longrightarrow>
            fst (detect_boolean_based b m info) \<and> fst (snd (detect_boolean_based b m info)) > 0.6)"
proof (intro conjI impI)
  assume a: "0 < content_length b \<and> real (content_length m) / real (content_length b) > 1.5"
  then show "detect_boolean_based b m info =
              (True, 0.8, boolean_evidence (content_length b) (content_length m)
                            (real (content_length m) / real (content_length b)))"
    unfolding detect_boolean_based_eq
    using boolean_verdict_or_ratio [OF or_true] by simp
next
  assume a: "0 < content_length b \<and> \<not> real (content_length m) / real (content_length b) > 1.5
            \<and> content_length b + 10 < content_length m"
  then have d: "abs_diff (content_length m) (content_length b) > 10"
    using abs_diff_increase by blast
  from a show "detect_boolean_based b m info =
              (True, 0.7, boolean_evidence (content_length b) (content_length m)
                            (real (content_length m) / real (content_length b)))"
    unfolding detect_boolean_based_eq
    using boolean_verdict_or_diff [OF or_true _ d] by simp
next
  assume a: "content_length b = 11 \<and> content_length m = 33"
  then have "detect_boolean_based b m info =
      (True, 0.8, boolean_evidence (content_length b) (content_length m) (real 33 / real 11))"
    unfolding detect_boolean_based_eq
    using boolean_verdict_or_ratio [OF or_true, of "real 33 / real 11"] by simp
  then show "fst (detect_boolean_based b m info)" "fst (snd (detect_boolean_based b m info)) > 0.6"
    by simp_all
qed

definition user_admin :: response_data where
  "user_admin = \<lparr>content = ''User: admin'', status_code = 200, response_time = 0.1, content_length = 11\<rparr>"

definition three_users :: response_data where
  "three_users = \<lparr>content = ''User: admin'' @ [newline] @ ''User: test'' @ [newline] @ ''User: guest'',
     status_code = 200, response_time = 0.1, content_length = 33\<rparr>"

definition long_page :: response_data where
  "long_page = \<lparr>content = replicate 30 (CHR ''x''), status_code = 200, response_time = 0.1, content_length = 30\<rparr>"

definition longer_page :: response_data where
  "longer_page = \<lparr>content = replicate 41 (CHR ''x''), status_code = 200, response_time = 0.1, content_length = 41\<rparr>"

definition boolean_or_true :: payload_info where
  "boolean_or_true = \<lparr>pname = ''Boolean OR True'', payload = ''1' OR '1'='1'', ptype = ''boolean_based'',
      prisk = HIGH, description = ''Boolean-based injection with always true condition''\<rparr>"

lemma boolean_or_true_payload:
  "contains ''OR'' (payload boolean_or_true)" "contains ''1'='1'' (payload boolean_or_true)"
  by (simp_all add: boolean_or_true_def)

theorem detect_boolean_based_or_true_witness:
  "contains ''OR'' (payload boolean_or_true) \<and> contains ''1'='1'' (payload boolean_or_true)
   \<and> detect_boolean_based user_admin three_users boolean_or_true =
        (True, 0.8, boolean_evidence 11 33 3)
   \<and> detect_boolean_based long_page longer_page boolean_or_true =
        (True, 0.7, boolean_evidence 30 41 (41 / 30))"
proof -
  note t1 = detect_boolean_based_or_true [OF boolean_or_true_payload, of user_admin three_users]
  note t2 = detect_boolean_based_or_true [OF boolean_or_true_payload, of long_page longer_page]
  have a: "detect_boolean_based user_admin three_users boolean_or_true = (True, 0.8, boolean_evidence 11 33 3)"
    using t1 by (simp add: user_admin_def three_users_def)
  have b: "detect_boolean_based long_page longer_page boolean_or_true = (True, 0.7, boolean_evidence 30 41 (41 / 30))"
    using t2 by (simp add: long_page_def longer_page_def)
  show ?thesis using a b boolean_or_true_payload by simp
qed

text \<open>
  C10. With a baseline of content length 0 the length ratio is 0, the division is never
  reached (the body of the function never raises, for any baseline), and an OR-true probe
  longer than 10 characters is reported vulnerable with confidence 0.7 through the
  absolute-difference branch.
\<close>

theorem detect_boolean_based_empty_baseline:
  "content_length b = 0 \<Longrightarrow>
     length_ratio (content_length m) (content_length b) = Inr 0 \<and>
     (\<exists>r. detect_boolean_based_body b m info = Inr r) \<and>
     (contains ''OR'' (payload info) \<and> contains ''1'='1'' (payload info) \<and> content_length m > 10 \<longrightarrow>
        detect_boolean_based b m info = (True, 0.7, boolean_evidence 0 (content_length m) 0))"
proof (intro conjI impI)
  assume z: "content_length b = 0"
  show "length_ratio (content_length m) (content_length b) = Inr 0"
    using z by (simp add: length_ratio_eq)
  show "\<exists>r. detect_boolean_based_body b m info = Inr r"
    unfolding detect_boolean_based_body_eq by blast
  assume a: "contains ''OR'' (payload info) \<and> contains ''1'='1'' (payload info) \<and> content_length m > 10"
  then have d: "abs_diff (content_length m) 0 > 10" by (simp add: abs_diff_def)
  show "detect_boolean_based b m info = (True, 0.7, boolean_evidence 0 (content_length m) 0)"
    unfolding detect_boolean_based_eq using z a boolean_verdict_or_diff [of "payload info" 0, OF _ _ _ d]
    by simp
qed

definition empty_page :: response_data where
  "empty_page = \<lparr>content = [], status_code = 200, response_time = 0.1, content_length = 0\<rparr>"

theorem detect_boolean_based_empty_baseline_witness:
  "content_length empty_page = 0 \<and>
   length_ratio (content_length user_admin) (content_length empty_page) = Inr 0 \<and>
   (\<exists>r. detect_boolean_based_body empty_page user_admin boolean_or_true = Inr r) \<and>
   content_length user_admin > 10 \<and>
   detect_boolean_based empty_page user_admin boolean_or_true = (True, 0.7, boolean_evidence 0 11 0)"
proof -
  have z: "content_length empty_page = 0" by (simp add: empty_page_def)
  have l: "content_length user_admin = 11" by (simp add: user_admin_def)
  show ?thesis
    using detect_boolean_based_empty_baseline [OF z, of user_admin boolean_or_true]
      boolean_or_true_payload z l by simp
qed

section \<open>The request executor: \<open>BaseScanner.send_request\<close> in \<open>core/base_scanner.py\<close>\<close>

text \<open>
  \<open>send_request\<close> is wrapped in the \<open>tenacity\<close> decorator
  \<open>retry(stop_after_attempt(3), wait_exponential(multiplier=1, min=1, max=10),
  retry_if_exception_type((aiohttp.ClientError, asyncio.TimeoutError)), reraise=True)\<close>.
  The decorator's loop is modelled by \<open>attempt_loop\<close>: the network is a function from the
  attempt number to what the decorated body does on that attempt (it returns a response, of
  any status code, or raises), and the result holds the final outcome, the list of delays
  slept between attempts (in seconds) and the number of the last attempt. The body raises
  \<open>RuntimeError\<close> when the scanner has no session.
\<close>

record http_response =
  resp_status :: int
  resp_headers :: "(string \<times> string) list"
  resp_body :: "string option"
  time_ms :: real

datatype exn = ClientError | TimeoutError | RuntimeError | OtherError

datatype 'a outcome = Returned 'a | Raised exn

record retry_policy =
  max_attempts :: nat
  multiplier :: real
  min_wait :: real
  max_wait :: real

definition send_request_policy :: retry_policy where
  "send_request_policy = \<lparr>max_attempts = 3, multiplier = 1, min_wait = 1, max_wait = 10\<rparr>"

definition wait_exponential :: "retry_policy \<Rightarrow> nat \<Rightarrow> real" where
  "wait_exponential pol attempt_number =
     max (max 0 (min_wait pol)) (min (multiplier pol * 2 ^ (attempt_number - 1)) (max_wait pol))"

definition retry_if_exception_type :: "exn \<Rightarrow> bool" where
  "retry_if_exception_type e = (e = ClientError \<or> e = TimeoutError)"

function attempt_loop ::
    "retry_policy \<Rightarrow> (nat \<Rightarrow> 'a outcome) \<Rightarrow> nat \<Rightarrow> real list \<Rightarrow> 'a outcome \<times> real list \<times> nat" where
  "attempt_loop pol call n slept =
     (case call n of
        Returned r \<Rightarrow> (Returned r, slept, n)
      | Raised e \<Rightarrow>
          if \<not> retry_if_exception_type e then (Raised e, slept, n)
          else if n \<ge> max_attempts pol then (Raised e, slept, n)
          else attempt_loop pol call (Suc n) (slept @ [wait_exponential pol n]))"
  by pat_completeness auto
termination
  by (relation "measure (\<lambda>(pol, call, n, slept). max_attempts pol - n)") auto

definition send_request ::
    "bool \<Rightarrow> (nat \<Rightarrow> http_response outcome) \<Rightarrow> http_response outcome \<times> real list \<times> nat" where
  "send_request has_session network =
     attempt_loop send_request_policy
       (\<lambda>n. if \<not> has_session then Raised RuntimeError else network n) 1 []"

lemma wait_bounds:
  "1 \<le> wait_exponential send_request_policy n \<and> wait_exponential send_request_policy n \<le> 10"
  by (simp add: wait_exponential_def send_request_policy_def)

lemma wait_small: "wait_exponential send_request_policy 1 = 1" "wait_exponential send_request_policy 2 = 2"
  by (simp_all add: wait_exponential_def send_request_policy_def)

declare attempt_loop.simps [simp del]

lemma attempt_loop_inv:
  assumes "attempt_loop pol call n slept = (res, slept', n')"
    and "n \<le> max_attempts pol"
  shows "n \<le> n' \<and> n' \<le> max_attempts pol
     \<and> slept' = slept @ map (wait_exponential pol) [n..<n']
     \<and> (\<forall>k. n \<le> k \<and> k < n' \<longrightarrow> (\<exists>e. call k = Raised e \<and> retry_if_exception_type e))
     \<and> res = call n'
     \<and> (\<forall>e. res = Raised e \<and> retry_if_exception_type e \<longrightarrow> n' = max_attempts pol)"
  using assms
proof (induction pol call n slept rule: attempt_loop.induct)
  case (1 pol call n slept)
  show ?case
  proof (cases "call n")
    case (Returned r)
    with "1.prems" have "res = Returned r" "slept' = slept" "n' = n"
      by (simp_all add: attempt_loop.simps [of pol call n])
    with "1.prems" Returned show ?thesis by auto
  next
    case (Raised e)
    show ?thesis
    proof (cases "retry_if_exception_type e \<and> n < max_attempts pol")
      case False
      with Raised "1.prems" have r: "res = Raised e" "slept' = slept" "n' = n"
        by (auto simp add: attempt_loop.simps [of pol call n] split: if_splits)
      from False "1.prems"(2) have "retry_if_exception_type e \<longrightarrow> n = max_attempts pol"
        by auto
      with r "1.prems" Raised show ?thesis by auto
    next
      case True
      then have r: "retry_if_exception_type e" and lt: "n < max_attempts pol" by auto
      from "1.prems"(1) Raised True
      have eq: "attempt_loop pol call (Suc n) (slept @ [wait_exponential pol n]) = (res, slept', n')"
        by (simp add: attempt_loop.simps [of pol call n])
      have c1: "\<not> \<not> retry_if_exception_type e" using r by simp
      have c2: "\<not> max_attempts pol \<le> n" using lt by simp
      have c3: "Suc n \<le> max_attempts pol" using lt by simp
      note ih = "1.IH" [OF Raised c1 c2 eq c3]
      have i1: "Suc n \<le> n'" by (rule conjunct1 [OF ih])
      have i2: "n' \<le> max_attempts pol" by (rule conjunct1 [OF conjunct2 [OF ih]])
      have i3: "slept' = (slept @ [wait_exponential pol n]) @ map (wait_exponential pol) [Suc n..<n']"
        by (rule conjunct1 [OF conjunct2 [OF conjunct2 [OF ih]]])
      have i4: "\<forall>k. Suc n \<le> k \<and> k < n' \<longrightarrow> (\<exists>e. call k = Raised e \<and> retry_if_exception_type e)"
        by (rule conjunct1 [OF conjunct2 [OF conjunct2 [OF conjunct2 [OF ih]]]])
      have i5: "res = call n'"
        by (rule conjunct1 [OF conjunct2 [OF conjunct2 [OF conjunct2 [OF conjunct2 [OF ih]]]]])
      have i6: "\<forall>e. res = Raised e \<and> retry_if_exception_type e \<longrightarrow> n' = max_attempts pol"
        by (rule conjunct2 [OF conjunct2 [OF conjunct2 [OF conjunct2 [OF conjunct2 [OF ih]]]]])
      from i1 have u: "[n..<n'] = n # [Suc n..<n']" by (simp add: upt_conv_Cons)
      have s: "slept' = slept @ map (wait_exponential pol) [n..<n']"
        unfolding u i3 by simp
      have k: "\<forall>k. n \<le> k \<and> k < n' \<longrightarrow> (\<exists>e. call k = Raised e \<and> retry_if_exception_type e)"
      proof (intro allI impI)
        fix k assume "n \<le> k \<and> k < n'"
        then consider "k = n" | "Suc n \<le> k \<and> k < n'" by linarith
        then show "\<exists>e. call k = Raised e \<and> retry_if_exception_type e"
        proof cases
          case 1
          with Raised r show ?thesis by blast
        next
          case 2
          with i4 show ?thesis by blast
        qed
      qed
      from i1 have "n \<le> n'" by simp
      with i2 s k i5 i6 show ?thesis by blast
    qed
  qed
qed

lemma wait_exponential_value:
  "wait_exponential send_request_policy k = min (2 ^ (k - 1)) 10"
proof -
  have "(1::real) \<le> 2 ^ (k - 1)" by simp
  then show ?thesis by (simp add: wait_exponential_def send_request_policy_def)
qed

text \<open>
  C8. A call of \<open>send_request\<close> makes at most 3 attempts and its result is what the last
  attempt did: the response it returned, whatever the status code, or the exception it
  raised. Every attempt before the last failed with a network or timeout error
  (\<open>ClientError\<close>, \<open>TimeoutError\<close>), and no other outcome is retried; an attempt that
  fails with such an error is the last one only when it is the third, so a transient
  failure of the first or second attempt is always followed by another attempt. The delay
  slept after attempt \<open>k\<close> is \<open>min (2 ^ (k - 1)) 10\<close> seconds: 1 second after the
  first attempt and 2 seconds after the second, never more than 10.
\<close>

theorem send_request_retries:
  assumes "send_request has_session network = (res, slept, n)"
  shows "1 \<le> n \<and> n \<le> 3
     \<and> res = (if has_session then network n else Raised RuntimeError)
     \<and> (\<forall>k. 1 \<le> k \<and> k < n \<longrightarrow>
            has_session \<and> (network k = Raised ClientError \<or> network k = Raised TimeoutError))
     \<and> (n < 3 \<longrightarrow> res \<noteq> Raised ClientError \<and> res \<noteq> Raised TimeoutError)
     \<and> slept = map (\<lambda>k. min (2 ^ (k - 1)) 10) [1..<n]
     \<and> slept = take (n - 1) [1, 2]
     \<and> list_all (\<lambda>d. 1 \<le> d \<and> d \<le> 10) slept
     \<and> (\<forall>k. wait_exponential send_request_policy k = min (2 ^ (k - 1)) 10)"
proof -
  let ?call = "\<lambda>n. if \<not> has_session then Raised RuntimeError else network n"
  have m: "max_attempts send_request_policy = 3" by (simp add: send_request_policy_def)
  from assms have a: "attempt_loop send_request_policy ?call 1 [] = (res, slept, n)"
    by (simp add: send_request_def)
  have le: "1 \<le> max_attempts send_request_policy" by (simp add: m)
  note t = attempt_loop_inv [OF a le, unfolded m]
  have i1: "1 \<le> n" by (rule conjunct1 [OF t])
  have i2: "n \<le> 3" by (rule conjunct1 [OF conjunct2 [OF t]])
  have "slept = [] @ map (wait_exponential send_request_policy) [1..<n]"
    by (rule conjunct1 [OF conjunct2 [OF conjunct2 [OF t]]])
  then have i3: "slept = map (\<lambda>k. min (2 ^ (k - 1)) 10) [1..<n]"
    by (simp add: wait_exponential_value)
  have i4: "\<forall>k. 1 \<le> k \<and> k < n \<longrightarrow> (\<exists>e. ?call k = Raised e \<and> retry_if_exception_type e)"
    by (rule conjunct1 [OF conjunct2 [OF conjunct2 [OF conjunct2 [OF t]]]])
  have i5: "res = ?call n"
    by (rule conjunct1 [OF conjunct2 [OF conjunct2 [OF conjunct2 [OF conjunct2 [OF t]]]]])
  have i6: "\<forall>e. res = Raised e \<and> retry_if_exception_type e \<longrightarrow> n = 3"
    by (rule conjunct2 [OF conjunct2 [OF conjunct2 [OF conjunct2 [OF conjunct2 [OF t]]]]])
  have r: "res = (if has_session then network n else Raised RuntimeError)"
    using i5 by simp
  have c: "\<forall>k. 1 \<le> k \<and> k < n \<longrightarrow>
            has_session \<and> (network k = Raised ClientError \<or> network k = Raised TimeoutError)"
  proof (intro allI impI)
    fix k assume k: "1 \<le> k \<and> k < n"
    with i4 obtain e where e: "?call k = Raised e" "retry_if_exception_type e" by blast
    show "has_session \<and> (network k = Raised ClientError \<or> network k = Raised TimeoutError)"
    proof (cases has_session)
      case True
      with e(1) have "network k = Raised e" by simp
      with e(2) True show ?thesis by (simp add: retry_if_exception_type_def)
    next
      case False
      with e(1) have "e = RuntimeError" by simp
      with e(2) show ?thesis by (simp add: retry_if_exception_type_def)
    qed
  qed
  have f: "n < 3 \<longrightarrow> res \<noteq> Raised ClientError \<and> res \<noteq> Raised TimeoutError"
  proof
    assume lt: "n < 3"
    have "res \<noteq> Raised ClientError"
    proof
      assume "res = Raised ClientError"
      then have "res = Raised ClientError \<and> retry_if_exception_type ClientError"
        by (simp add: retry_if_exception_type_def)
      with i6 have "n = 3" by blast
      with lt show False by simp
    qed
    moreover have "res \<noteq> Raised TimeoutError"
    proof
      assume "res = Raised TimeoutError"
      then have "res = Raised TimeoutError \<and> retry_if_exception_type TimeoutError"
        by (simp add: retry_if_exception_type_def)
      with i6 have "n = 3" by blast
      with lt show False by simp
    qed
    ultimately show "res \<noteq> Raised ClientError \<and> res \<noteq> Raised TimeoutError" by simp
  qed
  from i1 i2 consider "n = 1" | "n = 2" | "n = 3" by linarith
  then have g: "slept = take (n - 1) [1, 2]"
  proof cases
    case 1 then show ?thesis using i3 by simp
  next
    case 2
    have "[1..<2] = [1::nat]" by (simp add: upt_conv_Cons)
    with 2 show ?thesis using i3 by simp
  next
    case 3
    have "[1..<3] = [1::nat, 2]" by (simp add: upt_conv_Cons)
    with 3 show ?thesis using i3 by simp
  qed
  have b: "list_all (\<lambda>d. 1 \<le> d \<and> d \<le> 10) slept"
    unfolding i3 by (simp add: list_all_iff)
  have w: "\<forall>k. wait_exponential send_request_policy k = min (2 ^ (k - 1)) 10"
    by (simp add: wait_exponential_value)
  show ?thesis by (intro conjI i1 i2 r c f i3 g b w)
qed


definition server_error :: http_response where
  "server_error = \<lparr>resp_status = 500, resp_headers = [], resp_body = Some ''Internal Server Error'', time_ms = 12\<rparr>"

definition flaky_network :: "nat \<Rightarrow> http_response outcome" where
  "flaky_network k = (if k = 1 then Raised TimeoutError else if k = 2 then Raised ClientError
                      else Returned server_error)"

lemma attempt_loop_returned:
  "call n = Returned r \<Longrightarrow> attempt_loop pol call n slept = (Returned r, slept, n)"
  by (subst attempt_loop.simps) simp

lemma attempt_loop_retry:
  "call n = Raised e \<Longrightarrow> retry_if_exception_type e \<Longrightarrow> n < max_attempts pol \<Longrightarrow>
   attempt_loop pol call n slept =
   attempt_loop pol call (Suc n) (slept @ [wait_exponential pol n])"
  by (subst attempt_loop.simps) simp

lemma flaky_run: "send_request True flaky_network = (Returned server_error, [1, 2], 3)"
proof -
  have w: "wait_exponential send_request_policy 1 = 1" "wait_exponential send_request_policy 2 = 2"
    by (simp_all add: wait_exponential_def send_request_policy_def)
  have m: "max_attempts send_request_policy = 3" by (simp add: send_request_policy_def)
  have 3: "attempt_loop send_request_policy flaky_network 3 [1, 2] = (Returned server_error, [1, 2], 3)"
    by (rule attempt_loop_returned) (simp add: flaky_network_def)
  have 2: "attempt_loop send_request_policy flaky_network 2 [1] =
           attempt_loop send_request_policy flaky_network (Suc 2) ([1] @ [wait_exponential send_request_policy 2])"
    by (rule attempt_loop_retry [where e = ClientError])
       (simp_all add: flaky_network_def retry_if_exception_type_def m)
  have 1: "attempt_loop send_request_policy flaky_network 1 [] =
           attempt_loop send_request_policy flaky_network (Suc 1) ([] @ [wait_exponential send_request_policy 1])"
    by (rule attempt_loop_retry [where e = TimeoutError])
       (simp_all add: flaky_network_def retry_if_exception_type_def m)
  have s2: "Suc 2 = 3" and s1: "Suc 1 = 2" by simp_all
  have "attempt_loop send_request_policy flaky_network 1 [] = (Returned server_error, [1, 2], 3)"
    unfolding 1 s1 w using 2 [unfolded s2 w] 3 by simp
  then show ?thesis by (simp add: send_request_def)
qed

lemma steady_run:
  "send_request True (\<lambda>k. Returned server_error) = (Returned server_error, [], 1)"
  unfolding send_request_def by (rule attempt_loop_returned) simp

theorem send_request_retries_witness:
  "send_request True flaky_network = (Returned server_error, [1, 2], 3)
   \<and> Returned server_error = (if True then flaky_network 3 else Raised RuntimeError)
   \<and> flaky_network 1 = Raised TimeoutError \<and> flaky_network 2 = Raised ClientError
   \<and> [1, 2 :: real] = take (3 - 1) [1, 2]
   \<and> list_all (\<lambda>d. 1 \<le> d \<and> d \<le> 10) [1, 2 :: real]
   \<and> send_request True (\<lambda>k. Returned server_error) = (Returned server_error, [], 1)
   \<and> Returned server_error = (if True then (\<lambda>k. Returned server_error) (1::nat) else Raised RuntimeError)"
proof -
  note t = send_request_retries [OF flaky_run]
  note u = send_request_retries [OF steady_run]
  have a: "Returned server_error = (if True then flaky_network 3 else Raised RuntimeError)"
    by (rule conjunct1 [OF conjunct2 [OF conjunct2 [OF t]]])
  have b: "[1, 2 :: real] = take (3 - 1) [1, 2]"
    by (rule conjunct1 [OF conjunct2 [OF conjunct2 [OF conjunct2 [OF conjunct2 [OF conjunct2 [OF conjunct2 [OF t]]]]]]])
  have c: "list_all (\<lambda>d. 1 \<le> d \<and> d \<le> 10) [1, 2 :: real]"
    by (rule conjunct1 [OF conjunct2 [OF conjunct2 [OF conjunct2 [OF conjunct2 [OF conjunct2 [OF conjunct2 [OF conjunct2 [OF t]]]]]]]])
  have d: "flaky_network 1 = Raised TimeoutError" "flaky_network 2 = Raised ClientError"
    by (simp_all add: flaky_network_def)
  have e: "Returned server_error = (if True then (\<lambda>k. Returned server_error) (1::nat) else Raised RuntimeError)"
    by (rule conjunct1 [OF conjunct2 [OF conjunct2 [OF u]]])
  show ?thesis by (intro conjI flaky_run a d b c steady_run e)
qed

section \<open>The standard library's \<open>urllib.parse\<close>, as the scanners use it\<close>

text \<open>
  The scanners and the spider take URLs apart and put them together with \<open>urlparse\<close>,
  \<open>parse_qs\<close>, \<open>parse_qsl\<close>, \<open>urlencode\<close> and \<open>urlunparse\<close> of the Python standard
  library. These functions are not code of the repository; they are modelled here after
  the library's source (CPython 3.11), on \<open>str\<close> arguments, with two limits. Characters
  are bytes: a text outside ASCII stands for its UTF-8 encoding, and a percent escape
  decodes to the byte it names (the library replaces escapes that are not valid UTF-8 by
  U+FFFD). Of the checks on the network location only the one on unbalanced square
  brackets is modelled (the library also validates a bracketed host as an IP literal and
  a non-ASCII host under NFKC).
\<close>

definition tab :: char where "tab = CHR 0x09"
definition cr :: char where "cr = CHR 0x0D"

definition digits :: string where
  "digits = ''0123456789''"

text \<open>\<open>s.partition(c)\<close>: the text before the first \<open>c\<close> and the text after it.\<close>

definition before :: "char \<Rightarrow> string \<Rightarrow> string" where
  "before c s = takeWhile (\<lambda>x. x \<noteq> c) s"

definition after :: "char \<Rightarrow> string \<Rightarrow> string" where
  "after c s = drop 1 (dropWhile (\<lambda>x. x \<noteq> c) s)"

fun split_on :: "char \<Rightarrow> string \<Rightarrow> string list" where
  "split_on c [] = [[]]"
| "split_on c (x # xs) =
     (if x = c then [] # split_on c xs
      else (case split_on c xs of p # ps \<Rightarrow> (x # p) # ps | [] \<Rightarrow> [[x]]))"

record url_parts =
  scheme :: string
  netloc :: string
  path :: string
  params :: string
  query :: string
  fragment :: string

definition scheme_chars :: string where
  "scheme_chars = ascii_lower @ ascii_upper @ digits @ ''+-.''"

definition uses_params :: "string list" where
  "uses_params = ['''', ''ftp'', ''hdl'', ''prospero'', ''http'', ''imap'', ''https'', ''shttp'',
     ''rtsp'', ''rtsps'', ''rtspu'', ''sip'', ''sips'', ''mms'', ''sftp'', ''tel'']"

definition uses_netloc :: "string list" where
  "uses_netloc = ['''', ''ftp'', ''http'', ''gopher'', ''nntp'', ''telnet'', ''imap'', ''wais'',
     ''file'', ''mms'', ''https'', ''shttp'', ''snews'', ''prospero'', ''rtsp'', ''rtsps'',
     ''rtspu'', ''rsync'', ''svn'', ''svn+ssh'', ''sftp'', ''nfs'', ''git'', ''git+ssh'', ''ws'',
     ''wss'']"

definition c0_control_or_space :: "char \<Rightarrow> bool" where
  "c0_control_or_space c = ((of_char c :: nat) \<le> 32)"

definition unsafe_url_char :: "char \<Rightarrow> bool" where
  "unsafe_url_char c = (c = tab \<or> c = cr \<or> c = newline)"

definition has_scheme :: "string \<Rightarrow> bool" where
  "has_scheme url =
     (CHR '':'' \<in> set url \<and>
      (case url of [] \<Rightarrow> False | c # _ \<Rightarrow> c \<noteq> CHR '':'' \<and> c \<in> set (ascii_lower @ ascii_upper)) \<and>
      list_all (\<lambda>c. c \<in> set scheme_chars) (before CHR '':'' url))"

definition netloc_delim :: "char \<Rightarrow> bool" where
  "netloc_delim c = (c = CHR ''/'' \<or> c = CHR ''?'' \<or> c = CHR ''#'')"

definition bad_brackets :: "string \<Rightarrow> bool" where
  "bad_brackets n =
     ((CHR ''['' \<in> set n \<and> CHR '']'' \<notin> set n) \<or> (CHR '']'' \<in> set n \<and> CHR ''['' \<notin> set n))"

definition urlsplit :: "string \<Rightarrow> py_error + url_parts" where
  "urlsplit url0 =
     (let url1 = dropWhile c0_control_or_space url0;
          url2 = filter (\<lambda>c. \<not> unsafe_url_char c) url1;
          (sch, url3) = (if has_scheme url2
                         then (lower (before CHR '':'' url2), after CHR '':'' url2)
                         else ([], url2));
          (nl, url4) = (if take 2 url3 = ''//''
                        then (takeWhile (\<lambda>c. \<not> netloc_delim c) (drop 2 url3),
                              dropWhile (\<lambda>c. \<not> netloc_delim c) (drop 2 url3))
                        else ([], url3));
          (url5, frag) = (if CHR ''#'' \<in> set url4
                          then (before CHR ''#'' url4, after CHR ''#'' url4) else (url4, []));
          (url6, qry) = (if CHR ''?'' \<in> set url5
                         then (before CHR ''?'' url5, after CHR ''?'' url5) else (url5, []))
      in if bad_brackets nl then Inl ValueError
         else Inr \<lparr>scheme = sch, netloc = nl, path = url6, params = [], query = qry,
                    fragment = frag\<rparr>)"

text \<open>\<open>_splitparams\<close>: the parameters of the last path segment.\<close>

definition last_segment_start :: "string \<Rightarrow> nat" where
  "last_segment_start url = length url - length (takeWhile (\<lambda>c. c \<noteq> CHR ''/'') (rev url))"

definition splitparams :: "string \<Rightarrow> string \<times> string" where
  "splitparams url =
     (if CHR ''/'' \<in> set url then
        (let k = last_segment_start url - 1;
             seg = drop k url
         in if CHR '';'' \<in> set seg
            then (take k url @ before CHR '';'' seg, after CHR '';'' seg)
            else (url, []))
      else (before CHR '';'' url, after CHR '';'' url))"

definition urlparse :: "string \<Rightarrow> py_error + url_parts" where
  "urlparse url =
     (case urlsplit url of
        Inl e \<Rightarrow> Inl e
      | Inr r \<Rightarrow>
          if scheme r \<in> set uses_params \<and> CHR '';'' \<in> set (path r)
          then (case splitparams (path r) of (u, p) \<Rightarrow> Inr (r\<lparr>path := u, params := p\<rparr>))
          else Inr r)"

definition urlunsplit :: "string \<Rightarrow> string \<Rightarrow> string \<Rightarrow> string \<Rightarrow> string \<Rightarrow> string" where
  "urlunsplit sch nl url qry frag =
     (let url1 = (if nl \<noteq> [] \<or> (sch \<noteq> [] \<and> sch \<in> set uses_netloc) \<or> take 2 url = ''//''
                  then ''//'' @ nl @ (if url \<noteq> [] \<and> take 1 url \<noteq> ''/'' then ''/'' @ url else url)
                  else url);
          url2 = (if sch \<noteq> [] then sch @ '':'' @ url1 else url1);
          url3 = (if qry \<noteq> [] then url2 @ ''?'' @ qry else url2)
      in if frag \<noteq> [] then url3 @ ''#'' @ frag else url3)"

definition urlunparse :: "url_parts \<Rightarrow> string" where
  "urlunparse r =
     urlunsplit (scheme r) (netloc r)
       (if params r \<noteq> [] then path r @ '';'' @ params r else path r) (query r) (fragment r)"

subsection \<open>Percent encoding: \<open>quote_plus\<close> and \<open>unquote_plus\<close>\<close>

definition hexdig_upper :: string where "hexdig_upper = ''0123456789ABCDEF''"

definition hex_val :: "char \<Rightarrow> nat option" where
  "hex_val c = map_of (zip (''0123456789ABCDEF'' @ ''abcdef'') ([0..<16] @ [10..<16])) c"

definition always_safe :: string where
  "always_safe = ascii_upper @ ascii_lower @ digits @ ''_.-~''"

definition quote_char :: "char \<Rightarrow> string" where
  "quote_char c =
     (if c \<in> set always_safe then [c]
      else if c = CHR '' '' then ''+''
      else [CHR ''%'', hexdig_upper ! ((of_char c :: nat) div 16), hexdig_upper ! ((of_char c :: nat) mod 16)])"

definition quote_plus :: "string \<Rightarrow> string" where
  "quote_plus s = concat (map quote_char s)"

fun unquote :: "string \<Rightarrow> string" where
  "unquote (c # a # b # cs) =
     (if c = CHR ''%'' then
        (case (hex_val a, hex_val b) of
           (Some h, Some l) \<Rightarrow> char_of (16 * h + l) # unquote cs
         | _ \<Rightarrow> c # unquote (a # b # cs))
      else c # unquote (a # b # cs))"
| "unquote (c # cs) = c # unquote cs"
| "unquote [] = []"

definition unquote_plus :: "string \<Rightarrow> string" where
  "unquote_plus s = unquote (map (\<lambda>c. if c = CHR ''+'' then CHR '' '' else c) s)"

subsection \<open>Query strings: \<open>parse_qsl\<close>, \<open>parse_qs\<close> and \<open>urlencode\<close>\<close>

definition parse_qsl :: "string \<Rightarrow> (string \<times> string) list" where
  "parse_qsl qs =
     (if qs = [] then []
      else map (\<lambda>nv. (unquote_plus (before CHR ''='' nv), unquote_plus (after CHR ''='' nv)))
             (filter (\<lambda>nv. nv \<noteq> [] \<and> after CHR ''='' nv \<noteq> []) (split_on CHR ''&'' qs)))"

text \<open>A dictionary with list values, in insertion order of its keys.\<close>

fun dict_append :: "(string \<times> string list) list \<Rightarrow> string \<Rightarrow> string \<Rightarrow> (string \<times> string list) list" where
  "dict_append [] k v = [(k, [v])]"
| "dict_append ((k', vs) # d) k v =
     (if k' = k then (k', vs @ [v]) # d else (k', vs) # dict_append d k v)"

definition parse_qs :: "string \<Rightarrow> (string \<times> string list) list" where
  "parse_qs qs = foldl (\<lambda>d (k, v). dict_append d k v) [] (parse_qsl qs)"

fun join :: "string \<Rightarrow> string list \<Rightarrow> string" where
  "join sep [] = []"
| "join sep [x] = x"
| "join sep (x # y # ys) = x @ sep @ join sep (y # ys)"

definition urlencode :: "(string \<times> string list) list \<Rightarrow> string" where
  "urlencode d =
     join ''&'' (concat (map (\<lambda>(k, vs). map (\<lambda>v. quote_plus k @ ''='' @ quote_plus v) vs) d))"

section \<open>The service scanner, continued: the other strategies, the analysis and the scan\<close>

subsection \<open>\<open>_detect_union_based\<close>\<close>

definition union_indicators :: "string list" where
  "union_indicators = [''mysql'', ''version()'', ''database()'', ''user()'',
     ''information_schema'', ''table_name'', ''column_name'']"

text \<open>
  The regular expression \<open>\d+\.\d+\.\d+\<close>: a digit, a dot, one or more digits, a dot and
  a digit occur somewhere in the text.
\<close>

definition is_digit :: "char \<Rightarrow> bool" where
  "is_digit c = (c \<in> set digits)"

definition version_at :: "string \<Rightarrow> bool" where
  "version_at s =
     (case s of
        c # d # r \<Rightarrow>
          is_digit c \<and> d = CHR ''.'' \<and>
          (let r' = dropWhile is_digit r
           in r' \<noteq> r \<and> (case r' of e # f # _ \<Rightarrow> e = CHR ''.'' \<and> is_digit f | _ \<Rightarrow> False))
      | _ \<Rightarrow> False)"

fun version_number_search :: "string \<Rightarrow> bool" where
  "version_number_search [] = False"
| "version_number_search (c # cs) = (version_at (c # cs) \<or> version_number_search cs)"

definition backslash :: char where "backslash = CHR 0x5C"

definition version_patterns :: "(string \<times> (string \<Rightarrow> bool)) list" where
  "version_patterns =
     [([backslash] @ ''d+'' @ [backslash] @ ''.'' @ [backslash] @ ''d+'' @ [backslash] @ ''.''
         @ [backslash] @ ''d+'', version_number_search),
      (''mariadb'', contains ''mariadb''),
      (''mysql'', contains ''mysql'')]"

definition detect_union_based ::
    "response_data \<Rightarrow> response_data \<Rightarrow> payload_info \<Rightarrow> bool \<times> real \<times> evidence" where
  "detect_union_based baseline_response malicious_response info =
     (let malicious_content = lower (content malicious_response);
          detected_data =
            filter (\<lambda>i. contains i malicious_content) union_indicators
            @ map (\<lambda>(t, m). ''version_pattern: '' @ t)
                (filter (\<lambda>(t, m). m malicious_content) version_patterns);
          length_diff = abs_diff (content_length malicious_response) (content_length baseline_response);
          significant_change =
            (length_diff > 20
             \<or> status_code malicious_response \<noteq> status_code baseline_response
             \<or> contains ''null'' malicious_content)
      in if detected_data \<noteq> [] \<or> significant_change then
           (True,
            (if detected_data \<noteq> [] then 0.9 else if significant_change then 0.6 else 0.5),
            [(''detected_data'', EvList detected_data),
             (''union_payload'', EvStr (payload info)),
             (''data_extracted'', EvBool (detected_data \<noteq> [])),
             (''response_change_detected'', EvBool significant_change),
             (''length_difference'', EvInt (int length_diff))])
         else (False, 0, []))"

subsection \<open>\<open>_detect_time_based\<close>\<close>

definition time_evidence :: "real \<Rightarrow> real \<Rightarrow> string \<Rightarrow> evidence" where
  "time_evidence baseline_time malicious_time delay_type =
     [(''baseline_time'', EvNum baseline_time),
      (''malicious_time'', EvNum malicious_time),
      (''time_difference'', EvNum (malicious_time - baseline_time)),
      (''time_delay_detected'', EvBool True),
      (''delay_type'', EvStr delay_type)]"

definition detect_time_based ::
    "response_data \<Rightarrow> response_data \<Rightarrow> bool \<times> real \<times> evidence" where
  "detect_time_based baseline_response malicious_response =
     (let baseline_time = response_time baseline_response;
          malicious_time = response_time malicious_response;
          time_diff = malicious_time - baseline_time
      in if time_diff > 4.0 then (True, 0.9, time_evidence baseline_time malicious_time ''significant'')
         else if time_diff > 2.0 then (True, 0.7, time_evidence baseline_time malicious_time ''moderate'')
         else if time_diff > 1.0 then (True, 0.5, time_evidence baseline_time malicious_time ''minor'')
         else (False, 0, []))"

subsection \<open>\<open>_analyze_responses\<close>\<close>

datatype vulnerability_type =
  ERROR_BASED_SQLI | UNION_BASED_SQLI | BOOLEAN_BLIND_SQLI | TIME_BASED_SQLI | SQL_INJECTION

definition map_injection_type_to_vuln_type :: "string \<Rightarrow> vulnerability_type" where
  "map_injection_type_to_vuln_type injection_type =
     (if injection_type = ''error_based'' then ERROR_BASED_SQLI
      else if injection_type = ''union_based'' then UNION_BASED_SQLI
      else if injection_type = ''boolean_based'' then BOOLEAN_BLIND_SQLI
      else if injection_type = ''time_based'' then TIME_BASED_SQLI
      else SQL_INJECTION)"

record finding =
  f_title :: string
  f_description :: string
  f_vulnerability_type :: vulnerability_type
  f_risk :: risk
  f_endpoint :: string
  f_parameter :: string
  f_method :: string
  f_payload :: string
  f_confidence :: real
  f_evidence :: evidence
  f_baseline_status :: int
  f_malicious_status :: int
  f_baseline_length :: nat
  f_malicious_length :: nat
  f_response_time_diff :: real

definition detect :: "response_data \<Rightarrow> response_data \<Rightarrow> payload_info \<Rightarrow> bool \<times> real \<times> evidence" where
  "detect baseline_response malicious_response info =
     (let injection_type = ptype info
      in if injection_type = ''error_based'' then detect_error_based baseline_response malicious_response
         else if injection_type = ''boolean_based''
           then detect_boolean_based baseline_response malicious_response info
         else if injection_type = ''union_based''
           then detect_union_based baseline_response malicious_response info
         else if injection_type = ''time_based''
           then detect_time_based baseline_response malicious_response
         else (False, 0, []))"

text \<open>
  \<open>confidence_threshold\<close> is the setting \<open>SCANNER_CONFIDENCE_THRESHOLD\<close> (0.7 in
  \<open>settings.py\<close>, 0.5 when the setting is absent); it is a parameter here.
\<close>

definition analyze_responses ::
    "real \<Rightarrow> response_data \<Rightarrow> response_data \<Rightarrow> payload_info \<Rightarrow> string \<Rightarrow> string \<Rightarrow> finding option" where
  "analyze_responses confidence_threshold baseline_response malicious_response info base_url param_name =
     (case detect baseline_response malicious_response info of
        (is_vulnerable, confidence, ev) \<Rightarrow>
          if is_vulnerable \<and> confidence \<ge> confidence_threshold then
            Some \<lparr>f_title = ''SQL Injection - '' @ pname info,
                  f_description = description info,
                  f_vulnerability_type = map_injection_type_to_vuln_type (ptype info),
                  f_risk = prisk info,
                  f_endpoint = base_url,
                  f_parameter = param_name,
                  f_method = ''GET'',
                  f_payload = payload info,
                  f_confidence = confidence,
                  f_evidence = ev,
                  f_baseline_status = status_code baseline_response,
                  f_malicious_status = status_code malicious_response,
                  f_baseline_length = content_length baseline_response,
                  f_malicious_length = content_length malicious_response,
                  f_response_time_diff = response_time malicious_response - response_time baseline_response\<rparr>
          else None)"

subsection \<open>Requests\<close>

text \<open>
  \<open>_make_request\<close> answers with a response or with \<open>None\<close> (timeout, request error). The
  network is a function from the number of the request within the scan and its URL to
  that answer: the response's text, its status code and the time the request took.
\<close>

type_synonym network = "nat \<Rightarrow> string \<Rightarrow> (string \<times> int \<times> real) option"

definition make_response_data :: "(string \<times> int \<times> real) \<Rightarrow> response_data" where
  "make_response_data r =
     (case r of (text, status, elapsed) \<Rightarrow>
        \<lparr>content = text, status_code = status, response_time = elapsed,
         content_length = length text\<rparr>)"

fun dict_set :: "(string \<times> 'v) list \<Rightarrow> string \<Rightarrow> 'v \<Rightarrow> (string \<times> 'v) list" where
  "dict_set [] k v = [(k, v)]"
| "dict_set ((k', v') # d) k v = (if k' = k then (k', v) # d else (k', v') # dict_set d k v)"

definition build_url_with_param :: "string \<Rightarrow> string \<Rightarrow> string \<Rightarrow> string" where
  "build_url_with_param base_url param_name param_value =
     (case urlparse base_url of
        Inl e \<Rightarrow> base_url
      | Inr parsed_url \<Rightarrow>
          urlunparse (parsed_url\<lparr>query :=
            urlencode (dict_set (parse_qs (query parsed_url)) param_name [param_value])\<rparr>))"

text \<open>
  \<open>_extract_parameters\<close>: the query string's parameters with their first values; when
  there are none, the parameters found by \<open>_discover_form_parameters\<close>, which fetches and
  parses the page and is a parameter here.
\<close>

definition extract_parameters :: "(string \<Rightarrow> (string \<times> string) list) \<Rightarrow> string \<Rightarrow> (string \<times> string) list" where
  "extract_parameters discover url =
     (case urlparse url of
        Inl e \<Rightarrow> []
      | Inr parsed_url \<Rightarrow>
          (let parameters = map (\<lambda>(k, vs). (k, case vs of [] \<Rightarrow> [] | v # _ \<Rightarrow> v))
                              (parse_qs (query parsed_url))
           in if parameters = [] then discover url else parameters))"

definition test_sql_injection ::
    "real \<Rightarrow> network \<Rightarrow> nat \<Rightarrow> string \<Rightarrow> string \<Rightarrow> string \<Rightarrow> payload_info \<Rightarrow> finding option \<times> nat" where
  "test_sql_injection confidence_threshold net n base_url param_name original_value info =
     (case net n (build_url_with_param base_url param_name original_value) of
        None \<Rightarrow> (None, n + 1)
      | Some b \<Rightarrow>
          (case net (n + 1) (build_url_with_param base_url param_name (payload info)) of
             None \<Rightarrow> (None, n + 2)
           | Some m \<Rightarrow>
               (analyze_responses confidence_threshold (make_response_data b) (make_response_data m)
                  info base_url param_name, n + 2)))"

record scan_results =
  vulnerabilities :: "finding list"
  total_tests :: nat
  vulnerabilities_found :: nat
  critical_count :: nat
  high_count :: nat
  medium_count :: nat
  parameters_tested :: "string list"
  requests_made :: nat

definition record_test ::
    "real \<Rightarrow> network \<Rightarrow> string \<Rightarrow> scan_results \<Rightarrow> (string \<times> string) \<times> payload_info \<Rightarrow> scan_results" where
  "record_test confidence_threshold net target_url res t =
     (case t of ((param_name, param_value), info) \<Rightarrow>
        (case test_sql_injection confidence_threshold net (requests_made res) target_url
                param_name param_value info of
           (None, n') \<Rightarrow> res\<lparr>total_tests := total_tests res + 1, requests_made := n'\<rparr>
         | (Some v, n') \<Rightarrow>
             res\<lparr>vulnerabilities := vulnerabilities res @ [v],
                 total_tests := total_tests res + 1,
                 vulnerabilities_found := vulnerabilities_found res + 1,
                 critical_count := critical_count res + (if f_risk v = CRITICAL then 1 else 0),
                 high_count := high_count res + (if f_risk v = HIGH then 1 else 0),
                 medium_count := medium_count res + (if f_risk v = MEDIUM then 1 else 0),
                 requests_made := n'\<rparr>))"

definition scan ::
    "real \<Rightarrow> network \<Rightarrow> (string \<Rightarrow> (string \<times> string) list) \<Rightarrow> string \<Rightarrow> scan_results" where
  "scan confidence_threshold net discover target_url =
     (let parameters = extract_parameters discover target_url;
          start = \<lparr>vulnerabilities = [], total_tests = 0, vulnerabilities_found = 0,
                   critical_count = 0, high_count = 0, medium_count = 0,
                   parameters_tested = map fst parameters, requests_made = 0\<rparr>
      in foldl (record_test confidence_threshold net target_url) start
           (List.product parameters payloads))"

definition ok_page :: "string \<times> int \<times> real" where
  "ok_page = (''ok'', 200, 0.1)"
definition error_page :: "string \<times> int \<times> real" where
  "error_page = (''You have an error in your SQL syntax'', 200, 0.1)"

definition error_net :: network where
  "error_net n url = (if n < 4 then (if even n then Some ok_page else Some error_page) else None)"


subsection \<open>Findings of the service scanner\<close>

lemma detect_error_based_confidence:
  "detect_error_based b m = (True, c, ev) \<Longrightarrow> c = 0.9 \<or> c = 0.7 \<or> c = 0.6 \<or> c = 0.5"
  unfolding detect_error_based_def Let_def by (simp split: if_splits)

lemma boolean_verdict_confidence:
  "boolean_verdict pl d r ev = (True, c, ev') \<Longrightarrow> c = 0.8 \<or> c = 0.7"
  unfolding boolean_verdict_def by (simp split: if_splits)

lemma detect_boolean_based_confidence:
  "detect_boolean_based b m info = (True, c, ev) \<Longrightarrow> c = 0.8 \<or> c = 0.7"
  unfolding detect_boolean_based_eq by (rule boolean_verdict_confidence)

lemma detect_union_based_confidence:
  "detect_union_based b m info = (True, c, ev) \<Longrightarrow> c = 0.9 \<or> c = 0.6"
  unfolding detect_union_based_def Let_def by (simp split: if_splits)

lemma detect_time_based_confidence:
  "detect_time_based b m = (True, c, ev) \<Longrightarrow> c = 0.9 \<or> c = 0.7 \<or> c = 0.5"
  unfolding detect_time_based_def Let_def by (simp split: if_splits)

lemma detect_confidence:
  assumes "detect b m info = (True, c, ev)"
  shows "0.5 \<le> c \<and> c \<le> 0.9"
proof -
  consider "detect_error_based b m = (True, c, ev)" | "detect_boolean_based b m info = (True, c, ev)"
    | "detect_union_based b m info = (True, c, ev)" | "detect_time_based b m = (True, c, ev)"
    using assms unfolding detect_def Let_def by (simp split: if_splits)
  then show ?thesis
  proof cases
    case 1 from detect_error_based_confidence [OF 1] show ?thesis by auto
  next
    case 2 from detect_boolean_based_confidence [OF 2] show ?thesis by auto
  next
    case 3 from detect_union_based_confidence [OF 3] show ?thesis by auto
  next
    case 4 from detect_time_based_confidence [OF 4] show ?thesis by auto
  qed
qed

lemma analyze_responses_Some:
  assumes "analyze_responses thr b m info url p = Some f"
  shows "0.5 \<le> f_confidence f \<and> f_confidence f \<le> 0.9 \<and> thr \<le> f_confidence f
       \<and> f_payload f = payload info \<and> f_endpoint f = url \<and> f_parameter f = p
       \<and> f_vulnerability_type f = map_injection_type_to_vuln_type (ptype info)"
proof -
  obtain v c ev where d: "detect b m info = (v, c, ev)" by (cases "detect b m info") auto
  with assms have v: "v" and t: "thr \<le> c"
    and f: "f_confidence f = c" "f_payload f = payload info" "f_endpoint f = url" "f_parameter f = p"
      "f_vulnerability_type f = map_injection_type_to_vuln_type (ptype info)"
    unfolding analyze_responses_def by (auto split: if_splits)
  from d v have "detect b m info = (True, c, ev)" by simp
  from detect_confidence [OF this] t f show ?thesis by simp
qed

lemma test_sql_injection_Some:
  assumes "test_sql_injection thr net n url p v info = (Some f, n')"
  shows "0.5 \<le> f_confidence f \<and> f_confidence f \<le> 0.9 \<and> thr \<le> f_confidence f
       \<and> f_payload f = payload info \<and> f_endpoint f = url \<and> f_parameter f = p
       \<and> f_vulnerability_type f = map_injection_type_to_vuln_type (ptype info)"
proof -
  from assms obtain b m where
    "analyze_responses thr (make_response_data b) (make_response_data m) info url p = Some f"
    unfolding test_sql_injection_def by (auto split: option.splits)
  then show ?thesis by (rule analyze_responses_Some)
qed

definition finding_ok :: "real \<Rightarrow> string \<Rightarrow> (string \<times> string) list \<Rightarrow> finding \<Rightarrow> bool" where
  "finding_ok thr url parameters f =
     (0.5 \<le> f_confidence f \<and> f_confidence f \<le> 0.9 \<and> thr \<le> f_confidence f
      \<and> f_endpoint f = url
      \<and> (\<exists>info \<in> set payloads. f_payload f = payload info
             \<and> f_vulnerability_type f = map_injection_type_to_vuln_type (ptype info))
      \<and> f_parameter f \<in> fst ` set parameters)"

lemma record_test_vulnerabilities:
  "vulnerabilities (record_test thr net url res ((p, v), info)) = vulnerabilities res
   \<or> (\<exists>f n'. test_sql_injection thr net (requests_made res) url p v info = (Some f, n')
        \<and> vulnerabilities (record_test thr net url res ((p, v), info)) = vulnerabilities res @ [f])"
  unfolding record_test_def
  by (cases "test_sql_injection thr net (requests_made res) url p v info")
     (auto split: option.splits)

lemma foldl_record_test_ok:
  assumes "\<forall>f \<in> set (vulnerabilities res). finding_ok thr url parameters f"
    and "set tests \<subseteq> set parameters \<times> set payloads"
  shows "\<forall>f \<in> set (vulnerabilities (foldl (record_test thr net url) res tests)).
           finding_ok thr url parameters f"
  using assms
proof (induction tests arbitrary: res)
  case Nil
  then show ?case by simp
next
  case (Cons t tests)
  obtain p v info where t: "t = ((p, v), info)" by (cases t) auto
  with Cons.prems(2) have mem: "(p, v) \<in> set parameters" "info \<in> set payloads" by auto
  have "\<forall>f \<in> set (vulnerabilities (record_test thr net url res t)). finding_ok thr url parameters f"
  proof -
    from record_test_vulnerabilities [of thr net url res p v info]
    consider "vulnerabilities (record_test thr net url res t) = vulnerabilities res"
      | f n' where "test_sql_injection thr net (requests_made res) url p v info = (Some f, n')"
          "vulnerabilities (record_test thr net url res t) = vulnerabilities res @ [f]"
      unfolding t by blast
    then show ?thesis
    proof cases
      case 1
      with Cons.prems(1) show ?thesis by simp
    next
      case 2
      from test_sql_injection_Some [OF 2(1)] mem
      have "finding_ok thr url parameters f"
        unfolding finding_ok_def by force
      with 2(2) Cons.prems(1) show ?thesis by simp
    qed
  qed
  moreover from Cons.prems(2) have "set tests \<subseteq> set parameters \<times> set payloads" by simp
  ultimately show ?case using Cons.IH by simp
qed

lemma payloads_nonempty: "info \<in> set payloads \<Longrightarrow> payload info \<noteq> []"
  by (auto simp: payloads_def)

definition id_scan :: scan_results where
  "id_scan = scan 0.7 error_net (\<lambda>u. []) ''http://h/p?id=1''"

lemma id_scan_findings:
  "map (\<lambda>f. (f_parameter f, f_vulnerability_type f)) (vulnerabilities id_scan)
   = [(''id'', ERROR_BASED_SQLI), (''id'', ERROR_BASED_SQLI)]"
  unfolding id_scan_def by code_simp

subsection \<open>The target URL (\<open>ScanRequest.validate_target_url\<close>) and form discovery\<close>

text \<open>
  \<open>s.strip()\<close> removes the white space at both ends. Characters are bytes, so only the
  ASCII white space is removed here (tab to carriage return, the four separators
  \<open>0x1C\<close> to \<open>0x1F\<close> and the space).
\<close>

definition whitespace :: "char \<Rightarrow> bool" where
  "whitespace c = ((of_char c :: nat) \<in> set [9, 10, 11, 12, 13, 28, 29, 30, 31, 32])"

definition strip :: "string \<Rightarrow> string" where
  "strip s = rev (dropWhile whitespace (rev (dropWhile whitespace s)))"

definition forbidden_hosts :: "string list" where
  "forbidden_hosts = [''localhost'', ''127.0.0.1'', ''0.0.0.0'', ''::1'',
     ''10.'', ''172.16.'', ''172.17.'', ''172.18.'', ''172.19.'',
     ''172.20.'', ''172.21.'', ''172.22.'', ''172.23.'', ''172.24.'',
     ''172.25.'', ''172.26.'', ''172.27.'', ''172.28.'', ''172.29.'',
     ''172.30.'', ''172.31.'', ''192.168.'']"

text \<open>
  The target URL of a scan request passes the field's length bounds and then
  \<open>validate_target_url\<close>, which returns the stripped URL or raises \<open>ValueError\<close>. The
  setting \<open>ENVIRONMENT\<close> is a parameter.
\<close>

definition validate_target_url :: "string \<Rightarrow> string \<Rightarrow> py_error + string" where
  "validate_target_url environment target_url =
     (if length target_url < 1 \<or> length target_url > 2048 then Inl ValueError
      else let v = strip target_url
        in if v = [] then Inl ValueError
           else (case urlparse v of
                   Inl e \<Rightarrow> Inl ValueError
                 | Inr parsed \<Rightarrow>
                     if scheme parsed = [] \<or> netloc parsed = [] then Inl ValueError
                     else if lower (scheme parsed) \<notin> set [''http'', ''https''] then Inl ValueError
                     else let host = lower (hd (split_on CHR '':'' (netloc parsed)))
                       in if lower environment \<in> set [''development'', ''dev'', ''testing'', ''test'']
                             \<and> host \<in> set [''localhost'', ''127.0.0.1'']
                             \<and> contains ''/dvwa/'' (lower v)
                          then Inr v
                          else if list_ex (\<lambda>forbidden. startswith host forbidden) forbidden_hosts
                          then Inl ValueError
                          else Inr v))"

text \<open>
  \<open>_discover_form_parameters\<close> fetches the page and reads its forms with BeautifulSoup.
  That part is a parameter: \<open>page_inputs url\<close> is \<open>None\<close> when fetching or parsing raised,
  and otherwise the \<open>input\<close>, \<open>select\<close> and \<open>textarea\<close> fields of the page's forms in
  order, each with its \<open>name\<close>, \<open>type\<close> and \<open>value\<close> attributes (\<open>None\<close> for an attribute
  that is absent). What the routine does with the fields is modelled: a field is kept
  when its name is present and not empty and its type is not one of \<open>submit\<close>, \<open>button\<close>,
  \<open>reset\<close>, \<open>file\<close>.
\<close>

type_synonym input_field = "string option \<times> string option \<times> string option"

definition field_default :: "string \<Rightarrow> string \<Rightarrow> string" where
  "field_default input_type v =
     (if input_type \<in> set [''text'', ''search'', ''url''] then (if v \<noteq> [] then v else ''1'')
      else if input_type = ''hidden'' then (if v \<noteq> [] then v else ''test'')
      else if input_type = ''number'' then (if v \<noteq> [] then v else ''1'')
      else (if v \<noteq> [] then v else ''test''))"

definition add_field :: "(string \<times> string) list \<Rightarrow> input_field \<Rightarrow> (string \<times> string) list" where
  "add_field parameters input_field =
     (case input_field of (name_attr, type_attr, value_attr) \<Rightarrow>
        (let input_type = lower (case type_attr of None \<Rightarrow> ''text'' | Some t \<Rightarrow> t);
             v = (case value_attr of None \<Rightarrow> [] | Some x \<Rightarrow> x)
         in case name_attr of
              None \<Rightarrow> parameters
            | Some name \<Rightarrow>
                if name \<noteq> [] \<and> input_type \<notin> set [''submit'', ''button'', ''reset'', ''file'']
                then dict_set parameters name (field_default input_type v)
                else parameters))"

definition common_params :: "string list" where
  "common_params = [''id'', ''user'', ''search'', ''q'', ''query'', ''name'', ''username'']"

definition discover_form_parameters ::
    "(string \<Rightarrow> input_field list option) \<Rightarrow> string \<Rightarrow> (string \<times> string) list" where
  "discover_form_parameters page_inputs url =
     (case page_inputs url of
        None \<Rightarrow> [(''id'', ''1''), (''user'', ''test'')]
      | Some inputs \<Rightarrow>
          (let parameters = foldl add_field [] inputs
           in if parameters = [] then map (\<lambda>param. (param, ''1'')) common_params
              else parameters))"

lemma validate_target_url_nonempty:
  "validate_target_url environment target_url = Inr url \<Longrightarrow> url \<noteq> []"
  unfolding validate_target_url_def Let_def
  by (auto split: if_splits sum.splits)

lemma dict_set_key_set: "fst ` set (dict_set d k v) = insert k (fst ` set d)"
proof (induction d)
  case Nil
  show ?case by simp
next
  case (Cons a d)
  obtain k' v' where a: "a = (k', v')" by (cases a) auto
  show ?case
  proof (cases "k' = k")
    case True
    then show ?thesis by (simp add: a insert_absorb2)
  next
    case False
    with Cons show ?thesis by (simp add: a insert_commute)
  qed
qed

lemma add_field_names: "[] \<notin> fst ` set parameters \<Longrightarrow> [] \<notin> fst ` set (add_field parameters fld)"
proof -
  assume a: "[] \<notin> fst ` set parameters"
  obtain n t v where f: "fld = (n, t, v)" by (cases fld) auto
  show ?thesis
  proof (cases n)
    case None
    with a f show ?thesis by (simp add: add_field_def Let_def)
  next
    case (Some name)
    with a f show ?thesis
      by (auto simp add: add_field_def Let_def dict_set_key_set)
  qed
qed

lemma foldl_add_field_names:
  "[] \<notin> fst ` set parameters \<Longrightarrow> [] \<notin> fst ` set (foldl add_field parameters inputs)"
proof (induction inputs arbitrary: parameters)
  case Nil
  then show ?case by simp
next
  case (Cons fld inputs)
  from add_field_names [OF Cons.prems] have "[] \<notin> fst ` set (add_field parameters fld)" .
  from Cons.IH [OF this] show ?case by simp
qed

lemma discover_form_parameters_names:
  "[] \<notin> fst ` set (discover_form_parameters page_inputs url)"
proof (cases "page_inputs url")
  case None
  then show ?thesis by (simp add: discover_form_parameters_def)
next
  case (Some inputs)
  have "[] \<notin> fst ` set (foldl add_field [] inputs)" by (rule foldl_add_field_names) simp
  with Some show ?thesis
    by (auto simp: discover_form_parameters_def Let_def common_params_def)
qed

lemma dict_append_key_set: "fst ` set (dict_append d k v) = insert k (fst ` set d)"
proof (induction d)
  case Nil
  show ?case by simp
next
  case (Cons a d)
  obtain k' vs where a: "a = (k', vs)" by (cases a) auto
  show ?case
  proof (cases "k' = k")
    case True
    then show ?thesis by (simp add: a insert_absorb2)
  next
    case False
    with Cons show ?thesis by (simp add: a insert_commute)
  qed
qed

lemma foldl_dict_append_keys:
  "fst ` set (foldl (\<lambda>d (k, v). dict_append d k v) d kvs) = fst ` set d \<union> fst ` set kvs"
proof (induction kvs arbitrary: d)
  case Nil
  show ?case by simp
next
  case (Cons kv kvs)
  obtain k v where kv: "kv = (k, v)" by (cases kv) auto
  show ?case by (simp add: kv Cons.IH dict_append_key_set)
qed

lemma parse_qs_keys: "fst ` set (parse_qs qs) = fst ` set (parse_qsl qs)"
  by (simp add: parse_qs_def foldl_dict_append_keys)

lemma extract_parameters_empty_name:
  assumes "[] \<in> fst ` set (extract_parameters (discover_form_parameters page_inputs) url)"
  shows "\<exists>parsed v. urlparse url = Inr parsed \<and> ([], v) \<in> set (parse_qsl (query parsed))"
proof (cases "urlparse url")
  case (Inl e)
  with assms show ?thesis by (simp add: extract_parameters_def)
next
  case (Inr parsed)
  let ?ps = "map (\<lambda>(k, vs). (k, case vs of [] \<Rightarrow> [] | v # _ \<Rightarrow> v)) (parse_qs (query parsed))"
  have k: "fst ` set ?ps = fst ` set (parse_qs (query parsed))" by force
  show ?thesis
  proof (cases "?ps = []")
    case True
    with assms Inr have "[] \<in> fst ` set (discover_form_parameters page_inputs url)"
      by (simp add: extract_parameters_def Let_def)
    with discover_form_parameters_names show ?thesis by blast
  next
    case False
    with assms Inr have "[] \<in> fst ` set ?ps"
      by (simp add: extract_parameters_def Let_def)
    then have "[] \<in> fst ` set (parse_qsl (query parsed))" unfolding k parse_qs_keys .
    then obtain v where "([], v) \<in> set (parse_qsl (query parsed))" by force
    with Inr show ?thesis by blast
  qed
qed

text \<open>
  C6, as amended. Every finding that \<open>scan\<close> emits for a target URL that passed
  \<open>validate_target_url\<close> has a confidence within \<open>[0, 1]\<close> that is at least the configured
  threshold, a non-empty payload, a non-empty endpoint (the target URL), and as its
  parameter one of the parameter names extracted from the target. That name is not
  empty, except when the query string of the target holds a pair with an empty name (as
  in \<open>?=1\<close>), which \<open>parse_qs\<close> keeps and the scanner does not filter.
\<close>

theorem scan_finding_fields:
  assumes valid: "validate_target_url environment requested_url = Inr url"
    and f: "f \<in> set (vulnerabilities (scan thr net (discover_form_parameters page_inputs) url))"
  shows "0 \<le> f_confidence f \<and> f_confidence f \<le> 1 \<and> thr \<le> f_confidence f
       \<and> f_payload f \<noteq> [] \<and> f_endpoint f = url \<and> f_endpoint f \<noteq> []
       \<and> f_parameter f \<in> fst ` set (extract_parameters (discover_form_parameters page_inputs) url)
       \<and> (f_parameter f = [] \<longrightarrow>
            (\<exists>parsed v. urlparse url = Inr parsed \<and> ([], v) \<in> set (parse_qsl (query parsed))))"
proof -
  let ?d = "discover_form_parameters page_inputs"
  let ?ps = "extract_parameters ?d url"
  let ?start = "\<lparr>vulnerabilities = [], total_tests = 0, vulnerabilities_found = 0,
                   critical_count = 0, high_count = 0, medium_count = 0,
                   parameters_tested = map fst ?ps, requests_made = 0\<rparr>"
  have "\<forall>f \<in> set (vulnerabilities (foldl (record_test thr net url) ?start (List.product ?ps payloads))).
           finding_ok thr url ?ps f"
    by (rule foldl_record_test_ok) auto
  with f have ok: "finding_ok thr url ?ps f"
    unfolding scan_def Let_def by blast
  then obtain info where "info \<in> set payloads" "f_payload f = payload info"
    unfolding finding_ok_def by blast
  with payloads_nonempty have p: "f_payload f \<noteq> []" by simp
  from ok have c: "0 \<le> f_confidence f" "f_confidence f \<le> 1" "thr \<le> f_confidence f"
    and e: "f_endpoint f = url" and m: "f_parameter f \<in> fst ` set ?ps"
    unfolding finding_ok_def by auto
  from validate_target_url_nonempty [OF valid] e have e': "f_endpoint f \<noteq> []" by simp
  have n: "f_parameter f = [] \<longrightarrow>
            (\<exists>parsed v. urlparse url = Inr parsed \<and> ([], v) \<in> set (parse_qsl (query parsed)))"
  proof
    assume "f_parameter f = []"
    with m have "[] \<in> fst ` set ?ps" by simp
    then show "\<exists>parsed v. urlparse url = Inr parsed \<and> ([], v) \<in> set (parse_qsl (query parsed))"
      by (rule extract_parameters_empty_name)
  qed
  show ?thesis by (intro conjI c p e e' m n)
qed

definition unreachable_page :: "string \<Rightarrow> input_field list option" where
  "unreachable_page url = None"

definition id_target_scan :: scan_results where
  "id_target_scan = scan 0.7 error_net (discover_form_parameters unreachable_page) ''http://h/p?id=1''"

definition empty_name_scan :: scan_results where
  "empty_name_scan = scan 0.7 error_net (discover_form_parameters unreachable_page) ''http://h/p?=1''"

text \<open>
  C6 as stated fails: \<open>http://h/p?=1\<close> is a valid target, its query string has one
  parameter whose name is the empty string, and scanning it against a server that answers
  the probes with a database error emits two findings whose parameter is the empty string.
\<close>

theorem scan_empty_parameter_name_counterexample:
  "validate_target_url ''production'' ''http://h/p?=1'' = Inr ''http://h/p?=1''
   \<and> map f_parameter (vulnerabilities empty_name_scan) = [[], []]"
  unfolding empty_name_scan_def by code_simp

lemma id_target_valid:
  "validate_target_url ''production'' '' http://h/p?id=1'' = Inr ''http://h/p?id=1''"
  by code_simp

lemma id_target_scan_findings:
  "map (\<lambda>f. (f_parameter f, f_endpoint f, f_payload f, f_confidence f)) (vulnerabilities id_target_scan)
   = [(''id'', ''http://h/p?id=1'', [sq], 9 / 10), (''id'', ''http://h/p?id=1'', [dq], 9 / 10)]"
  unfolding id_target_scan_def by code_simp

theorem scan_finding_fields_witness:
  "validate_target_url ''production'' '' http://h/p?id=1'' = Inr ''http://h/p?id=1''
   \<and> hd (vulnerabilities id_target_scan) \<in> set (vulnerabilities id_target_scan)
   \<and> 0 \<le> f_confidence (hd (vulnerabilities id_target_scan))
   \<and> f_confidence (hd (vulnerabilities id_target_scan)) \<le> 1
   \<and> 0.7 \<le> f_confidence (hd (vulnerabilities id_target_scan))
   \<and> f_payload (hd (vulnerabilities id_target_scan)) \<noteq> []
   \<and> f_endpoint (hd (vulnerabilities id_target_scan)) = ''http://h/p?id=1''
   \<and> f_endpoint (hd (vulnerabilities id_target_scan)) \<noteq> []
   \<and> f_parameter (hd (vulnerabilities id_target_scan))
        \<in> fst ` set (extract_parameters (discover_form_parameters unreachable_page) ''http://h/p?id=1'')
   \<and> f_parameter (hd (vulnerabilities id_target_scan)) = ''id''"
proof -
  have "vulnerabilities id_target_scan \<noteq> []" using id_target_scan_findings by auto
  then have m: "hd (vulnerabilities id_target_scan) \<in> set (vulnerabilities id_target_scan)" by simp
  note t = scan_finding_fields [OF id_target_valid m [unfolded id_target_scan_def], folded id_target_scan_def]
  have c1: "0 \<le> f_confidence (hd (vulnerabilities id_target_scan))" by (rule conjunct1 [OF t])
  have c2: "f_confidence (hd (vulnerabilities id_target_scan)) \<le> 1"
    by (rule conjunct1 [OF conjunct2 [OF t]])
  have c3: "0.7 \<le> f_confidence (hd (vulnerabilities id_target_scan))"
    by (rule conjunct1 [OF conjunct2 [OF conjunct2 [OF t]]])
  have c4: "f_payload (hd (vulnerabilities id_target_scan)) \<noteq> []"
    by (rule conjunct1 [OF conjunct2 [OF conjunct2 [OF conjunct2 [OF t]]]])
  have c5: "f_endpoint (hd (vulnerabilities id_target_scan)) = ''http://h/p?id=1''"
    by (rule conjunct1 [OF conjunct2 [OF conjunct2 [OF conjunct2 [OF conjunct2 [OF t]]]]])
  have c6: "f_endpoint (hd (vulnerabilities id_target_scan)) \<noteq> []"
    by (rule conjunct1 [OF conjunct2 [OF conjunct2 [OF conjunct2 [OF conjunct2 [OF conjunct2 [OF t]]]]]])
  have c7: "f_parameter (hd (vulnerabilities id_target_scan))
        \<in> fst ` set (extract_parameters (discover_form_parameters unreachable_page) ''http://h/p?id=1'')"
    by (rule conjunct1 [OF conjunct2 [OF conjunct2 [OF conjunct2 [OF conjunct2 [OF conjunct2 [OF conjunct2 [OF t]]]]]]])
  have c8: "f_parameter (hd (vulnerabilities id_target_scan)) = ''id''"
    using id_target_scan_findings by (cases "vulnerabilities id_target_scan") auto
  show ?thesis by (intro conjI id_target_valid m c1 c2 c3 c4 c5 c6 c7 c8)
qed


section \<open>The plugin scanner: \<open>plugins/audit/sqli.py\<close> on \<open>core/base_scanner.py\<close>\<close>

subsection \<open>Data (\<open>core/models.py\<close>)\<close>

record http_request =
  req_url :: string
  req_method :: string
  req_data :: "(string \<times> string) list option"

datatype vulnerability_kind =
  KIND_SQL_INJECTION | KIND_XSS | KIND_DIRECTORY_TRAVERSAL | KIND_FILE_INCLUSION
  | KIND_OPEN_REDIRECT | KIND_CSRF | KIND_OTHER

datatype severity = SEV_CRITICAL | SEV_HIGH | SEV_MEDIUM | SEV_LOW | SEV_INFO

text \<open>
  The evidence of a \<open>Vulnerability\<close> is a text. The two texts the routines below build are
  kept apart by constructor; the formatting of the two durations (\<open>:.2f\<close>) is not
  modelled. A \<open>Vulnerability\<close> has no confidence field.
\<close>

datatype evidence_text =
  ErrorEvidence string
  | DelayEvidence real real

record vulnerability =
  v_name :: string
  v_description :: string
  v_kind :: vulnerability_kind
  v_severity :: severity
  v_request :: http_request
  v_response :: http_response
  v_evidence :: evidence_text
  v_payload :: "string option"
  v_cwe_id :: "nat option"
  v_remediation :: "string option"

definition remediation_text :: string where
  "remediation_text = ''Use prepared statements and parameterized queries. Never build SQL queries by concatenating user input.''"

subsection \<open>Payload tables\<close>

definition test_payloads :: "string list" where
  "test_payloads = [
     [sq] @ '' OR '' @ [sq] @ ''1'' @ [sq] @ ''='' @ [sq] @ ''1'',
     [sq] @ '' OR '' @ [sq] @ ''1'' @ [sq] @ ''='' @ [sq] @ ''1'' @ [sq] @ '' -- '',
     [dq] @ '' OR '' @ [dq] @ ''1'' @ [dq] @ ''='' @ [dq] @ ''1'',
     [dq] @ '' OR '' @ [dq] @ ''1'' @ [dq] @ ''='' @ [dq] @ ''1'' @ [dq] @ '' -- '',
     [sq] @ '') OR ('' @ [sq] @ ''1'' @ [sq] @ ''='' @ [sq] @ ''1'',
     [dq] @ '') OR ('' @ [dq] @ ''1'' @ [dq] @ ''='' @ [dq] @ ''1'',
     [sq] @ '' OR '' @ [sq] @ ''1'' @ [sq] @ ''='' @ [sq] @ ''1'' @ [sq] @ '' /*'',
     [sq] @ ''; DROP TABLE users; --'',
     ''1'' @ [sq] @ '' OR '' @ [sq] @ ''1'' @ [sq] @ '' = '' @ [sq] @ ''1'',
     ''1'' @ [dq] @ '' OR '' @ [dq] @ ''1'' @ [dq] @ '' = '' @ [dq] @ ''1'',
     ''1'' @ [sq] @ '' UNION SELECT NULL,NULL,NULL-- '',
     ''1'' @ [sq] @ '' UNION SELECT NULL,NULL-- '',
     ''1'' @ [sq] @ '' UNION SELECT NULL-- '',
     ''1'' @ [sq] @ '' UNION SELECT user(),database(),version()-- '',
     ''1'' @ [sq] @ '' AND 1=1 UNION SELECT user,password FROM users-- '']"

definition time_payloads :: "(string \<times> string list) list" where
  "time_payloads = [
     (''mysql'', [
        [sq] @ '' AND (SELECT * FROM (SELECT(SLEEP(5)))a) -- '',
        [dq] @ '' AND (SELECT * FROM (SELECT(SLEEP(5)))a) -- '',
        [sq] @ '') AND (SELECT * FROM (SELECT(SLEEP(5)))a) -- '',
        [dq] @ '') AND (SELECT * FROM (SELECT(SLEEP(5)))a) -- '']),
     (''postgresql'', [
        [sq] @ '' AND (SELECT pg_sleep(5)) -- '',
        [dq] @ '' AND (SELECT pg_sleep(5)) -- '',
        [sq] @ '') AND (SELECT pg_sleep(5)) -- '',
        [dq] @ '') AND (SELECT pg_sleep(5)) -- '']),
     (''mssql'', [
        [sq] @ '' WAITFOR DELAY '' @ [sq] @ ''0:0:5'' @ [sq] @ '' -- '',
        [dq] @ '' WAITFOR DELAY '' @ [sq] @ ''0:0:5'' @ [sq] @ '' -- '',
        [sq] @ '') WAITFOR DELAY '' @ [sq] @ ''0:0:5'' @ [sq] @ '' -- '',
        [dq] @ '') WAITFOR DELAY '' @ [sq] @ ''0:0:5'' @ [sq] @ '' -- '']),
     (''oracle'', [
        [sq] @ '' AND 1=DBMS_PIPE.RECEIVE_MESSAGE(CHR(99)||CHR(104)||CHR(97)||CHR(114),5) -- '',
        [dq] @ '' AND 1=DBMS_PIPE.RECEIVE_MESSAGE(CHR(99)||CHR(104)||CHR(97)||CHR(114),5) -- '',
        [sq] @ '') AND 1=DBMS_PIPE.RECEIVE_MESSAGE(CHR(99)||CHR(104)||CHR(97)||CHR(114),5) -- '',
        [dq] @ '') AND 1=DBMS_PIPE.RECEIVE_MESSAGE(CHR(99)||CHR(104)||CHR(97)||CHR(114),5) -- ''])]"

definition base_delay :: nat where "base_delay = 2"

fun show_digit :: "nat \<Rightarrow> char" where
  "show_digit n = (if n < 10 then digits ! n else CHR ''?'')"

fun show_nat :: "nat \<Rightarrow> string" where
  "show_nat n = (if n < 10 then [show_digit n] else show_nat (n div 10) @ [show_digit (n mod 10)])"

definition aggressive_payloads :: "string list" where
  "aggressive_payloads = [
     [sq] @ '' AND (SELECT COUNT('' @ ''*) FROM (SELECT 1 UNION SELECT 2 UNION SELECT 3 UNION SELECT 4 UNION SELECT 5) x JOIN (SELECT 1 UNION SELECT 2 UNION SELECT 3 UNION SELECT 4 UNION SELECT 5) y JOIN (SELECT 1 UNION SELECT 2 UNION SELECT 3 UNION SELECT 4 UNION SELECT 5) z) > 0 AND SLEEP('' @ show_nat base_delay @ '') -- '',
     [sq] @ '' AND (SELECT COUNT('' @ ''*) FROM (SELECT 1 UNION SELECT 2) x JOIN (SELECT 1 UNION SELECT 2) y JOIN (SELECT 1 UNION SELECT 2) z JOIN (SELECT 1 UNION SELECT 2) a JOIN (SELECT 1 UNION SELECT 2) b) > 0 AND SLEEP('' @ show_nat base_delay @ '') -- '',
     [sq] @ '' AND (SELECT pg_sleep('' @ show_nat base_delay @ '')) -- '',
     [sq] @ ''; WAITFOR DELAY '' @ [sq] @ ''0:0:'' @ show_nat base_delay @ [sq] @ '' -- '']"

subsection \<open>Adjusting a payload's delay\<close>

text \<open>
  \<open>re.search\<close> of a literal text, one or more digits and a literal text: the digits of the
  leftmost match.
\<close>

fun find_delay :: "string \<Rightarrow> string \<Rightarrow> string \<Rightarrow> string option" where
  "find_delay pre post [] = None"
| "find_delay pre post (c # cs) =
     (if prefix pre (c # cs)
         \<and> takeWhile is_digit (drop (length pre) (c # cs)) \<noteq> []
         \<and> prefix post (dropWhile is_digit (drop (length pre) (c # cs)))
      then Some (takeWhile is_digit (drop (length pre) (c # cs)))
      else find_delay pre post cs)"

definition digit_val :: "char \<Rightarrow> nat" where
  "digit_val c = (case map_of (zip digits [0..<10]) c of Some d \<Rightarrow> d | None \<Rightarrow> 0)"

definition int_of_digits :: "string \<Rightarrow> nat" where
  "int_of_digits ds = foldl (\<lambda>a c. 10 * a + digit_val c) 0 ds"

text \<open>\<open>s.replace(old, new)\<close> for a non-empty \<open>old\<close>.\<close>

fun replace :: "string \<Rightarrow> string \<Rightarrow> string \<Rightarrow> string" where
  "replace old new [] = []"
| "replace old new (c # cs) =
     (if old \<noteq> [] \<and> prefix old (c # cs)
      then new @ replace old new (drop (length old) (c # cs))
      else c # replace old new cs)"

definition expected_delay :: "string \<Rightarrow> nat" where
  "expected_delay pl =
     (case find_delay ''SLEEP('' '')'' pl of
        Some ds \<Rightarrow> int_of_digits ds
      | None \<Rightarrow>
          (case find_delay ''pg_sleep('' '')'' pl of
             Some ds \<Rightarrow> int_of_digits ds
           | None \<Rightarrow>
               (case find_delay (''DELAY '' @ [sq] @ ''0:0:'') [sq] pl of
                  Some ds \<Rightarrow> int_of_digits ds
                | None \<Rightarrow> base_delay)))"

definition adjust_payload :: "string \<Rightarrow> string" where
  "adjust_payload pl =
     (let d = expected_delay pl
      in if d > base_delay then
           replace (''DELAY '' @ [sq] @ ''0:0:'' @ show_nat d @ [sq])
                   (''DELAY '' @ [sq] @ ''0:0:'' @ show_nat base_delay @ [sq])
             (replace (''pg_sleep('' @ show_nat d @ '')'') (''pg_sleep('' @ show_nat base_delay @ '')'')
                (replace (''SLEEP('' @ show_nat d @ '')'') (''SLEEP('' @ show_nat base_delay @ '')'') pl))
         else pl)"


subsection \<open>Requests\<close>

text \<open>
  \<open>send_request\<close> returns the request and the response, or raises once its retries are
  used up. The routines below read the clock before and after a call, so the network is a
  function from the number of the request within the run and the request to the time the
  call took and its response (\<open>None\<close> when it raised).
\<close>

type_synonym plugin_net = "nat \<Rightarrow> http_request \<Rightarrow> real \<times> http_response option"

definition urlencode_flat :: "(string \<times> string) list \<Rightarrow> string" where
  "urlencode_flat d = join ''&'' (map (\<lambda>(k, v). quote_plus k @ ''='' @ quote_plus v) d)"

definition dict_update :: "(string \<times> string) list \<Rightarrow> (string \<times> string) list \<Rightarrow> (string \<times> string) list" where
  "dict_update d other = foldl (\<lambda>a (k, v). dict_set a k v) d other"

definition test_data_of :: "(string \<times> string) list option \<Rightarrow> string \<Rightarrow> string \<Rightarrow> (string \<times> string) list" where
  "test_data_of form_data param_name pl =
     dict_set (case form_data of None \<Rightarrow> [] | Some d \<Rightarrow> d) param_name pl"

definition probe_request ::
    "string \<Rightarrow> string \<Rightarrow> (string \<times> string) list \<Rightarrow> py_error + http_request" where
  "probe_request url http_method test_data =
     (if http_method = ''GET'' then
        (case urlparse url of
           Inl e \<Rightarrow> Inl e
         | Inr parsed_url \<Rightarrow>
             Inr \<lparr>req_url = urlunparse (parsed_url\<lparr>query :=
                      urlencode_flat (dict_update (dict_update [] (parse_qsl (query parsed_url))) test_data)\<rparr>),
                  req_method = ''GET'', req_data = None\<rparr>)
      else Inr \<lparr>req_url = url, req_method = ''POST'', req_data = Some test_data\<rparr>)"

subsection \<open>Loops that stop at the first finding\<close>

text \<open>
  A run is recorded as a trace with one entry for each payload that was tried: the time
  of its request (none when building or sending the request raised), the time of the
  repeat request (when one was sent and answered), the number of requests it sent, and
  whether it led to a finding.
\<close>

record probe =
  pr_payload :: string
  pr_first :: "real option"
  pr_repeat :: "real option"
  pr_requests :: nat
  pr_found :: bool

text \<open>
  \<open>for payload in payloads: ... add_vulnerability(...); return\<close>: the payloads are tried
  in order and the loop ends with the first finding.
\<close>

fun first_match ::
    "(nat \<Rightarrow> string \<Rightarrow> vulnerability option \<times> nat \<times> probe) \<Rightarrow> nat \<Rightarrow> string list
       \<Rightarrow> vulnerability option \<times> nat \<times> probe list" where
  "first_match step n [] = (None, n, [])"
| "first_match step n (pl # pls) =
     (case step n pl of
        (Some v, n', pr) \<Rightarrow> (Some v, n', [pr])
      | (None, n', pr) \<Rightarrow>
          (case first_match step n' pls of (r, n'', prs) \<Rightarrow> (r, n'', pr # prs)))"

subsection \<open>\<open>_test_error_based\<close>\<close>

text \<open>
  \<open>_contains_sql_error\<close> and \<open>_extract_error_evidence\<close> search the body for the scanner's
  library of error patterns; they are parameters here.
\<close>

definition is_time_payload :: "string \<Rightarrow> bool" where
  "is_time_payload pl = (contains ''SLEEP'' pl \<or> contains ''DELAY'' pl \<or> contains ''pg_sleep'' pl)"

definition error_vulnerability ::
    "(string \<Rightarrow> string) \<Rightarrow> string \<Rightarrow> string \<Rightarrow> http_request \<Rightarrow> http_response \<Rightarrow> vulnerability" where
  "error_vulnerability extract_error_evidence param_name pl request response =
     \<lparr>v_name = ''SQL Injection'',
      v_description = ''SQL injection vulnerability detected in parameter '' @ param_name
                      @ '' with payload: '' @ pl,
      v_kind = KIND_SQL_INJECTION, v_severity = SEV_HIGH,
      v_request = request, v_response = response,
      v_evidence = ErrorEvidence (extract_error_evidence
                     (case resp_body response of None \<Rightarrow> [] | Some b \<Rightarrow> b)),
      v_payload = Some pl, v_cwe_id = Some 89, v_remediation = Some remediation_text\<rparr>"

definition error_probe ::
    "plugin_net \<Rightarrow> (string \<Rightarrow> bool) \<Rightarrow> (string \<Rightarrow> string) \<Rightarrow> string \<Rightarrow> string \<Rightarrow> string
       \<Rightarrow> (string \<times> string) list option \<Rightarrow> nat \<Rightarrow> string \<Rightarrow> vulnerability option \<times> nat \<times> probe" where
  "error_probe net contains_sql_error extract_error_evidence url param_name http_method form_data n pl =
     (case probe_request url http_method (test_data_of form_data param_name pl) of
        Inl e \<Rightarrow> (None, n, \<lparr>pr_payload = pl, pr_first = None, pr_repeat = None,
                             pr_requests = 0, pr_found = False\<rparr>)
      | Inr request \<Rightarrow>
          (case net n request of
             (t, None) \<Rightarrow> (None, n + 1, \<lparr>pr_payload = pl, pr_first = None, pr_repeat = None,
                                         pr_requests = 1, pr_found = False\<rparr>)
           | (t, Some response) \<Rightarrow>
               (case resp_body response of
                  None \<Rightarrow> (None, n + 1, \<lparr>pr_payload = pl, pr_first = Some t, pr_repeat = None,
                                         pr_requests = 1, pr_found = False\<rparr>)
                | Some b \<Rightarrow>
                    if b \<noteq> [] \<and> contains_sql_error b
                    then (Some (error_vulnerability extract_error_evidence param_name pl request response),
                          n + 1, \<lparr>pr_payload = pl, pr_first = Some t, pr_repeat = None,
                                  pr_requests = 1, pr_found = True\<rparr>)
                    else (None, n + 1, \<lparr>pr_payload = pl, pr_first = Some t, pr_repeat = None,
                                         pr_requests = 1, pr_found = False\<rparr>))))"

definition add_vulnerability :: "vulnerability list \<Rightarrow> vulnerability option \<Rightarrow> vulnerability list" where
  "add_vulnerability vulns r = (case r of None \<Rightarrow> vulns | Some v \<Rightarrow> vulns @ [v])"

definition test_error_based ::
    "plugin_net \<Rightarrow> (string \<Rightarrow> bool) \<Rightarrow> (string \<Rightarrow> string) \<Rightarrow> vulnerability list \<Rightarrow> nat
       \<Rightarrow> string \<Rightarrow> string \<Rightarrow> string \<Rightarrow> (string \<times> string) list option
       \<Rightarrow> vulnerability list \<times> nat \<times> probe list" where
  "test_error_based net contains_sql_error extract_error_evidence vulns n url param_name http_method form_data =
     (case first_match
             (error_probe net contains_sql_error extract_error_evidence url param_name http_method form_data)
             n (filter (\<lambda>pl. \<not> is_time_payload pl) test_payloads) of
        (r, n', trace) \<Rightarrow> (add_vulnerability vulns r, n', trace))"

subsection \<open>\<open>_test_time_based\<close>\<close>

definition mean :: "real list \<Rightarrow> real" where
  "mean xs = sum_list xs / real (length xs)"

definition std_dev :: "real list \<Rightarrow> real" where
  "std_dev xs = sqrt (sum_list (map (\<lambda>x. (x - mean xs) ^ 2) xs) / real (length xs))"

definition threshold :: "real list \<Rightarrow> real" where
  "threshold baseline_times = mean baseline_times + 3 * std_dev baseline_times + real base_delay"

definition baseline_request :: "string \<Rightarrow> string \<Rightarrow> (string \<times> string) list option \<Rightarrow> http_request" where
  "baseline_request url http_method form_data =
     (if http_method = ''GET'' then \<lparr>req_url = url, req_method = ''GET'', req_data = None\<rparr>
      else \<lparr>req_url = url, req_method = ''POST'', req_data = form_data\<rparr>)"

text \<open>
  The baseline loop runs outside any \<open>try\<close>: a request that raises ends the routine
  (\<open>None\<close>).
\<close>

fun sample_baseline :: "plugin_net \<Rightarrow> http_request \<Rightarrow> nat \<Rightarrow> nat \<Rightarrow> real list option" where
  "sample_baseline net request n 0 = Some []"
| "sample_baseline net request n (Suc k) =
     (case net n request of
        (t, None) \<Rightarrow> None
      | (t, Some response) \<Rightarrow>
          (case sample_baseline net request (Suc n) k of
             None \<Rightarrow> None
           | Some ts \<Rightarrow> Some (t # ts)))"

definition time_vulnerability ::
    "string \<Rightarrow> string \<Rightarrow> http_request \<Rightarrow> http_response \<Rightarrow> real \<Rightarrow> real \<Rightarrow> vulnerability" where
  "time_vulnerability param_name pl request response elapsed_time avg_baseline =
     \<lparr>v_name = ''Time-based SQL Injection'',
      v_description = ''Time-based SQL injection vulnerability detected in parameter '' @ param_name,
      v_kind = KIND_SQL_INJECTION, v_severity = SEV_HIGH,
      v_request = request, v_response = response,
      v_evidence = DelayEvidence elapsed_time avg_baseline,
      v_payload = Some pl, v_cwe_id = Some 89, v_remediation = Some remediation_text\<rparr>"

definition standard_probe ::
    "plugin_net \<Rightarrow> real \<Rightarrow> real \<Rightarrow> string \<Rightarrow> string \<Rightarrow> string \<Rightarrow> (string \<times> string) list option
       \<Rightarrow> nat \<Rightarrow> string \<Rightarrow> vulnerability option \<times> nat \<times> probe" where
  "standard_probe net thr avg_baseline url param_name http_method form_data n pl =
     (case probe_request url http_method (test_data_of form_data param_name pl) of
        Inl e \<Rightarrow> (None, n, \<lparr>pr_payload = pl, pr_first = None, pr_repeat = None,
                             pr_requests = 0, pr_found = False\<rparr>)
      | Inr request \<Rightarrow>
          (case net n request of
             (t, None) \<Rightarrow> (None, n + 1, \<lparr>pr_payload = pl, pr_first = None, pr_repeat = None,
                                         pr_requests = 1, pr_found = False\<rparr>)
           | (elapsed_time, Some response) \<Rightarrow>
               if elapsed_time \<ge> thr then
                 (case net (n + 1) request of
                    (t, None) \<Rightarrow> (None, n + 2, \<lparr>pr_payload = pl, pr_first = Some elapsed_time,
                                                pr_repeat = None, pr_requests = 2, pr_found = False\<rparr>)
                  | (verification_time, Some response2) \<Rightarrow>
                      if verification_time \<ge> thr
                      then (Some (time_vulnerability param_name pl request response elapsed_time avg_baseline),
                            n + 2, \<lparr>pr_payload = pl, pr_first = Some elapsed_time,
                                    pr_repeat = Some verification_time, pr_requests = 2,
                                    pr_found = True\<rparr>)
                      else (None, n + 2, \<lparr>pr_payload = pl, pr_first = Some elapsed_time,
                                           pr_repeat = Some verification_time, pr_requests = 2,
                                           pr_found = False\<rparr>))
               else (None, n + 1, \<lparr>pr_payload = pl, pr_first = Some elapsed_time, pr_repeat = None,
                                    pr_requests = 1, pr_found = False\<rparr>)))"

definition aggressive_probe ::
    "plugin_net \<Rightarrow> real \<Rightarrow> real \<Rightarrow> string \<Rightarrow> string \<Rightarrow> string \<Rightarrow> (string \<times> string) list option
       \<Rightarrow> nat \<Rightarrow> string \<Rightarrow> vulnerability option \<times> nat \<times> probe" where
  "aggressive_probe net thr avg_baseline url param_name http_method form_data n pl =
     (case probe_request url http_method (test_data_of form_data param_name pl) of
        Inl e \<Rightarrow> (None, n, \<lparr>pr_payload = pl, pr_first = None, pr_repeat = None,
                             pr_requests = 0, pr_found = False\<rparr>)
      | Inr request \<Rightarrow>
          (case net n request of
             (t, None) \<Rightarrow> (None, n + 1, \<lparr>pr_payload = pl, pr_first = None, pr_repeat = None,
                                         pr_requests = 1, pr_found = False\<rparr>)
           | (elapsed_time, Some response) \<Rightarrow>
               if elapsed_time \<ge> thr
               then (Some (time_vulnerability param_name pl request response elapsed_time avg_baseline),
                     n + 1, \<lparr>pr_payload = pl, pr_first = Some elapsed_time, pr_repeat = None,
                             pr_requests = 1, pr_found = True\<rparr>)
               else (None, n + 1, \<lparr>pr_payload = pl, pr_first = Some elapsed_time, pr_repeat = None,
                                    pr_requests = 1, pr_found = False\<rparr>)))"

text \<open>
  The result is \<open>None\<close> when a baseline request raised; otherwise the list of
  vulnerabilities, the number of requests sent so far, the trace of the standard payloads
  and the trace of the aggressive payloads (empty when a standard payload led to a
  finding).
\<close>

definition test_time_based ::
    "plugin_net \<Rightarrow> vulnerability list \<Rightarrow> nat \<Rightarrow> string \<Rightarrow> string \<Rightarrow> string
       \<Rightarrow> (string \<times> string) list option
       \<Rightarrow> (vulnerability list \<times> nat \<times> probe list \<times> probe list) option" where
  "test_time_based net vulns n url param_name http_method form_data =
     (case sample_baseline net (baseline_request url http_method form_data) n 3 of
        None \<Rightarrow> None
      | Some baseline_times \<Rightarrow>
          (let avg_baseline = mean baseline_times;
               thr = threshold baseline_times
           in case first_match (standard_probe net thr avg_baseline url param_name http_method form_data)
                     (n + 3) (map adjust_payload (concat (map snd time_payloads))) of
                (Some v, n', trace) \<Rightarrow> Some (vulns @ [v], n', trace, [])
              | (None, n', trace) \<Rightarrow>
                  (case first_match (aggressive_probe net thr avg_baseline url param_name http_method form_data)
                          n' aggressive_payloads of
                     (r, n'', trace') \<Rightarrow> Some (add_vulnerability vulns r, n'', trace, trace'))))"

subsection \<open>What a trace tells\<close>

definition finding_of :: "vulnerability \<Rightarrow> probe \<Rightarrow> bool" where
  "finding_of v pr =
     (pr_found pr \<and> v_payload v = Some (pr_payload pr) \<and> v_severity v = SEV_HIGH
      \<and> v_kind v = KIND_SQL_INJECTION)"

definition no_finding :: "probe list \<Rightarrow> bool" where
  "no_finding tr = list_all (\<lambda>pr. \<not> pr_found pr) tr"

text \<open>
  The outcome of a loop and its trace: without a finding no entry of the trace is marked
  found; with a finding, the last entry is the one that led to it and it is the only one
  marked.
\<close>

definition outcome_matches :: "vulnerability option \<Rightarrow> probe list \<Rightarrow> bool" where
  "outcome_matches r tr =
     (case r of
        None \<Rightarrow> no_finding tr
      | Some v \<Rightarrow> tr \<noteq> [] \<and> finding_of v (last tr) \<and> no_finding (butlast tr))"

lemma first_match_trace:
  assumes step: "\<And>n pl r n' pr. step n pl = (r, n', pr) \<Longrightarrow>
            P pr \<and> pr_payload pr = pl \<and> n' = n + pr_requests pr
            \<and> (case r of None \<Rightarrow> \<not> pr_found pr | Some v \<Rightarrow> finding_of v pr)"
    and run: "first_match step n pls = (r, n', tr)"
  shows "list_all P tr \<and> outcome_matches r tr
       \<and> map pr_payload tr = take (length tr) pls
       \<and> n' = n + sum_list (map pr_requests tr)
       \<and> (r = None \<longrightarrow> length tr = length pls)"
  using run
proof (induction pls arbitrary: n r n' tr)
  case Nil
  then show ?case by (simp add: outcome_matches_def no_finding_def)
next
  case (Cons pl pls)
  obtain r1 n1 pr where s: "step n pl = (r1, n1, pr)" by (cases "step n pl") auto
  note st = step [OF s]
  show ?case
  proof (cases r1)
    case (Some v)
    with s Cons.prems have e: "r = Some v" "n' = n1" "tr = [pr]" by simp_all
    from st Some have "P pr" "pr_payload pr = pl" "n1 = n + pr_requests pr" "finding_of v pr"
      by simp_all
    with e show ?thesis by (simp add: outcome_matches_def no_finding_def)
  next
    case None
    obtain r2 n2 prs where f: "first_match step n1 pls = (r2, n2, prs)"
      by (cases "first_match step n1 pls") auto
    with s None Cons.prems have e: "r = r2" "n' = n2" "tr = pr # prs" by simp_all
    from st None have p: "P pr" "pr_payload pr = pl" "n1 = n + pr_requests pr" "\<not> pr_found pr"
      by simp_all
    note ih = Cons.IH [OF f]
    have i1: "list_all P prs" by (rule conjunct1 [OF ih])
    have i2: "outcome_matches r2 prs" by (rule conjunct1 [OF conjunct2 [OF ih]])
    have i3: "map pr_payload prs = take (length prs) pls"
      by (rule conjunct1 [OF conjunct2 [OF conjunct2 [OF ih]]])
    have i4: "n2 = n1 + sum_list (map pr_requests prs)"
      by (rule conjunct1 [OF conjunct2 [OF conjunct2 [OF conjunct2 [OF ih]]]])
    have i5: "r2 = None \<longrightarrow> length prs = length pls"
      by (rule conjunct2 [OF conjunct2 [OF conjunct2 [OF conjunct2 [OF ih]]]])
    have o: "outcome_matches r2 (pr # prs)"
    proof (cases r2)
      case None
      with i2 p(4) show ?thesis by (simp add: outcome_matches_def no_finding_def)
    next
      case (Some v)
      with i2 have "prs \<noteq> []" "finding_of v (last prs)" "no_finding (butlast prs)"
        by (simp_all add: outcome_matches_def)
      with Some p(4) show ?thesis by (simp add: outcome_matches_def no_finding_def)
    qed
    have a: "list_all P (pr # prs)" using p(1) i1 by simp
    have b: "map pr_payload (pr # prs) = take (length (pr # prs)) (pl # pls)"
      using p(2) i3 by simp
    have c: "n2 = n + sum_list (map pr_requests (pr # prs))" using p(3) i4 by simp
    have d: "r2 = None \<longrightarrow> length (pr # prs) = length (pl # pls)" using i5 by simp
    show ?thesis unfolding e by (intro conjI a o b c d)
  qed
qed

subsection \<open>The rules of the two time-based loops\<close>

definition standard_rule :: "real \<Rightarrow> probe \<Rightarrow> bool" where
  "standard_rule thr pr =
     ((pr_found pr \<longleftrightarrow>
         (\<exists>e v. pr_first pr = Some e \<and> thr \<le> e \<and> pr_repeat pr = Some v \<and> thr \<le> v))
      \<and> (\<forall>e. pr_first pr = Some e \<and> e < thr \<longrightarrow> pr_repeat pr = None \<and> pr_requests pr = 1))"

definition aggressive_rule :: "real \<Rightarrow> probe \<Rightarrow> bool" where
  "aggressive_rule thr pr =
     ((pr_found pr \<longleftrightarrow> (\<exists>e. pr_first pr = Some e \<and> thr \<le> e)) \<and> pr_repeat pr = None)"

lemma standard_probe_step:
  assumes "standard_probe net thr avg url param http_method form_data n pl = (r, n', pr)"
  shows "standard_rule thr pr \<and> pr_payload pr = pl \<and> n' = n + pr_requests pr
       \<and> (case r of None \<Rightarrow> \<not> pr_found pr | Some v \<Rightarrow> finding_of v pr)"
proof (cases "probe_request url http_method (test_data_of form_data param pl)")
  case (Inl e)
  with assms show ?thesis
    by (auto simp: standard_probe_def standard_rule_def)
next
  case (Inr request)
  obtain t ro where n1: "net n request = (t, ro)" by (cases "net n request") auto
  show ?thesis
  proof (cases ro)
    case None
    with assms Inr n1 show ?thesis by (auto simp: standard_probe_def standard_rule_def)
  next
    case (Some response)
    show ?thesis
    proof (cases "thr \<le> t")
      case False
      with assms Inr n1 Some show ?thesis by (auto simp: standard_probe_def standard_rule_def)
    next
      case True
      obtain t2 ro2 where n2: "net (n + 1) request = (t2, ro2)" by (cases "net (n + 1) request") auto
      show ?thesis
      proof (cases ro2)
        case None
        with assms Inr n1 Some True n2 show ?thesis
          by (auto simp: standard_probe_def standard_rule_def)
      next
        case (Some response2)
        with assms Inr n1 \<open>ro = Some response\<close> True n2 show ?thesis
          by (auto simp: standard_probe_def standard_rule_def finding_of_def time_vulnerability_def
              split: if_splits)
      qed
    qed
  qed
qed

lemma aggressive_probe_step:
  assumes "aggressive_probe net thr avg url param http_method form_data n pl = (r, n', pr)"
  shows "aggressive_rule thr pr \<and> pr_payload pr = pl \<and> n' = n + pr_requests pr
       \<and> (case r of None \<Rightarrow> \<not> pr_found pr | Some v \<Rightarrow> finding_of v pr)"
proof (cases "probe_request url http_method (test_data_of form_data param pl)")
  case (Inl e)
  with assms show ?thesis
    by (auto simp: aggressive_probe_def aggressive_rule_def)
next
  case (Inr request)
  obtain t ro where n1: "net n request = (t, ro)" by (cases "net n request") auto
  show ?thesis
  proof (cases ro)
    case None
    with assms Inr n1 show ?thesis by (auto simp: aggressive_probe_def aggressive_rule_def)
  next
    case (Some response)
    with assms Inr n1 show ?thesis
      by (auto simp: aggressive_probe_def aggressive_rule_def finding_of_def time_vulnerability_def
          split: if_splits)
  qed
qed

lemma error_probe_step:
  assumes "error_probe net cse eee url param http_method form_data n pl = (r, n', pr)"
  shows "pr_requests pr \<le> 1 \<and> pr_payload pr = pl \<and> n' = n + pr_requests pr
       \<and> (case r of None \<Rightarrow> \<not> pr_found pr | Some v \<Rightarrow> finding_of v pr)"
proof (cases "probe_request url http_method (test_data_of form_data param pl)")
  case (Inl e)
  with assms show ?thesis by (auto simp: error_probe_def)
next
  case (Inr request)
  obtain t ro where n1: "net n request = (t, ro)" by (cases "net n request") auto
  show ?thesis
  proof (cases ro)
    case None
    with assms Inr n1 show ?thesis by (auto simp: error_probe_def)
  next
    case (Some response)
    with assms Inr n1 show ?thesis
      by (cases "resp_body response")
         (auto simp: error_probe_def finding_of_def error_vulnerability_def split: if_splits)
  qed
qed

lemma sample_baseline_3:
  assumes "sample_baseline net request n 3 = Some ts"
  shows "ts = [fst (net n request), fst (net (n + 1) request), fst (net (n + 2) request)]"
proof -
  have 3: "(3::nat) = Suc (Suc (Suc 0))" by simp
  obtain t0 r0 where a: "net n request = (t0, r0)" by (cases "net n request") auto
  obtain t1 r1 where b: "net (Suc n) request = (t1, r1)" by (cases "net (Suc n) request") auto
  obtain t2 r2 where c: "net (Suc (Suc n)) request = (t2, r2)"
    by (cases "net (Suc (Suc n)) request") auto
  from assms show ?thesis unfolding 3
    by (simp add: a b c split: option.splits)
qed

lemma outcome_matches_append:
  assumes "no_finding tr" "outcome_matches r tr'"
  shows "outcome_matches r (tr @ tr')"
proof (cases r)
  case None
  with assms show ?thesis by (simp add: outcome_matches_def no_finding_def)
next
  case (Some v)
  with assms have "tr' \<noteq> []" "finding_of v (last tr')" "no_finding (butlast tr')"
    by (simp_all add: outcome_matches_def)
  with assms(1) Some show ?thesis
    by (simp add: outcome_matches_def no_finding_def butlast_append)
qed

lemma detect_time_based_flag:
  "fst (detect_time_based b m) \<longleftrightarrow> response_time m - response_time b > 1"
  unfolding detect_time_based_def Let_def by auto

lemma detect_time_based_at_least_half:
  "fst (detect_time_based b m) \<Longrightarrow> 0.5 \<le> fst (snd (detect_time_based b m))"
  unfolding detect_time_based_def Let_def by (auto split: if_splits)

subsection \<open>The requests behind a trace\<close>

text \<open>
  The time that request number \<open>k\<close> of the run took, when it was answered.
\<close>

definition measured :: "plugin_net \<Rightarrow> nat \<Rightarrow> http_request \<Rightarrow> real option" where
  "measured net k request = (case net k request of (t, None) \<Rightarrow> None | (t, Some response) \<Rightarrow> Some t)"

text \<open>
  The payloads of the first loop of \<open>_test_time_based\<close>: the entries of \<open>time_payloads\<close>
  in their order, each with its delay set to the base delay.
\<close>

definition standard_payloads :: "string list" where
  "standard_payloads = map adjust_payload (concat (map snd time_payloads))"

text \<open>
  An entry of a trace records the requests of its payload: number \<open>k\<close> of the run is the
  request that carries the payload in the tested parameter, its time is the entry's first
  time, and in a loop that repeats, a first time at or above the threshold is followed by
  the same request once more, number \<open>k + 1\<close>, whose time is the entry's second time. No
  other request is sent for the payload.
\<close>

definition probe_timing ::
    "plugin_net \<Rightarrow> bool \<Rightarrow> real \<Rightarrow> string \<Rightarrow> string \<Rightarrow> string \<Rightarrow> (string \<times> string) list option
       \<Rightarrow> nat \<Rightarrow> string \<Rightarrow> probe \<Rightarrow> bool" where
  "probe_timing net repeats thr url param_name http_method form_data k pl pr =
     (pr_payload pr = pl
      \<and> (case probe_request url http_method (test_data_of form_data param_name pl) of
            Inl e \<Rightarrow> pr_first pr = None \<and> pr_repeat pr = None \<and> pr_requests pr = 0
          | Inr request \<Rightarrow>
              pr_first pr = measured net k request
              \<and> (if repeats \<and> (case measured net k request of None \<Rightarrow> False | Some e \<Rightarrow> thr \<le> e)
                 then pr_repeat pr = measured net (k + 1) request \<and> pr_requests pr = 2
                 else pr_repeat pr = None \<and> pr_requests pr = 1)))"

text \<open>A payload leads to a finding only when its request took at least the threshold.\<close>

definition needs_threshold :: "real \<Rightarrow> probe \<Rightarrow> bool" where
  "needs_threshold thr pr =
     (pr_found pr \<longrightarrow> (case pr_first pr of None \<Rightarrow> False | Some e \<Rightarrow> thr \<le> e))"

lemma first_match_positions:
  assumes step: "\<And>n pl r n' pr. step n pl = (r, n', pr) \<Longrightarrow> Q n pl pr \<and> n' = n + pr_requests pr"
    and run: "first_match step n pls = (r, n', tr)"
  shows "\<forall>i<length tr. Q (n + sum_list (map pr_requests (take i tr))) (pls ! i) (tr ! i)"
  using run
proof (induction pls arbitrary: n r n' tr)
  case Nil
  then show ?case by simp
next
  case (Cons pl pls)
  obtain r1 n1 pr where s: "step n pl = (r1, n1, pr)" by (cases "step n pl") auto
  note st = step [OF s]
  have q: "Q n pl pr" by (rule conjunct1 [OF st])
  have n1: "n1 = n + pr_requests pr" by (rule conjunct2 [OF st])
  show ?case
  proof (cases r1)
    case (Some v)
    with s Cons.prems have e: "tr = [pr]" by simp
    show ?thesis unfolding e using q by simp
  next
    case None
    obtain r2 n2 prs where f: "first_match step n1 pls = (r2, n2, prs)"
      by (cases "first_match step n1 pls") auto
    with s None Cons.prems have e: "tr = pr # prs" by simp
    note ih = Cons.IH [OF f]
    show ?thesis unfolding e
    proof (intro allI impI)
      fix i assume i: "i < length (pr # prs)"
      show "Q (n + sum_list (map pr_requests (take i (pr # prs)))) ((pl # pls) ! i) ((pr # prs) ! i)"
      proof (cases i)
        case 0
        with q show ?thesis by simp
      next
        case (Suc j)
        with i have j: "j < length prs" by simp
        with ih have "Q (n1 + sum_list (map pr_requests (take j prs))) (pls ! j) (prs ! j)" by blast
        then have "Q (n + (pr_requests pr + sum_list (map pr_requests (take j prs)))) (pls ! j) (prs ! j)"
          unfolding n1 by (simp only: add.assoc)
        then show ?thesis unfolding Suc by simp
      qed
    qed
  qed
qed

lemma standard_probe_timing:
  assumes "standard_probe net thr avg url param http_method form_data n pl = (r, n', pr)"
  shows "probe_timing net True thr url param http_method form_data n pl pr \<and> n' = n + pr_requests pr"
proof (cases "probe_request url http_method (test_data_of form_data param pl)")
  case (Inl e)
  with assms show ?thesis
    by (auto simp: standard_probe_def probe_timing_def)
next
  case (Inr request)
  obtain t ro where n1: "net n request = (t, ro)" by (cases "net n request") auto
  show ?thesis
  proof (cases ro)
    case None
    with assms Inr n1 show ?thesis by (auto simp: standard_probe_def probe_timing_def measured_def)
  next
    case (Some response)
    show ?thesis
    proof (cases "thr \<le> t")
      case False
      with assms Inr n1 Some show ?thesis
        by (auto simp: standard_probe_def probe_timing_def measured_def)
    next
      case True
      obtain t2 ro2 where n2: "net (n + 1) request = (t2, ro2)" by (cases "net (n + 1) request") auto
      show ?thesis
      proof (cases ro2)
        case None
        with assms Inr n1 Some True n2 show ?thesis
          by (auto simp: standard_probe_def probe_timing_def measured_def)
      next
        case (Some response2)
        with assms Inr n1 \<open>ro = Some response\<close> True n2 show ?thesis
          by (auto simp: standard_probe_def probe_timing_def measured_def split: if_splits)
      qed
    qed
  qed
qed

lemma aggressive_probe_timing:
  assumes "aggressive_probe net thr avg url param http_method form_data n pl = (r, n', pr)"
  shows "probe_timing net False thr url param http_method form_data n pl pr \<and> n' = n + pr_requests pr"
proof (cases "probe_request url http_method (test_data_of form_data param pl)")
  case (Inl e)
  with assms show ?thesis
    by (auto simp: aggressive_probe_def probe_timing_def)
next
  case (Inr request)
  obtain t ro where n1: "net n request = (t, ro)" by (cases "net n request") auto
  show ?thesis
  proof (cases ro)
    case None
    with assms Inr n1 show ?thesis by (auto simp: aggressive_probe_def probe_timing_def measured_def)
  next
    case (Some response)
    with assms Inr n1 show ?thesis
      by (auto simp: aggressive_probe_def probe_timing_def measured_def split: if_splits)
  qed
qed

lemma aggressive_rule_needs_threshold: "aggressive_rule thr pr \<Longrightarrow> needs_threshold thr pr"
  unfolding aggressive_rule_def needs_threshold_def by auto

lemma sample_baseline_measured:
  assumes "sample_baseline net request n 3 = Some ts"
  shows "\<exists>a b c. ts = [a, b, c] \<and> measured net n request = Some a
           \<and> measured net (n + 1) request = Some b \<and> measured net (n + 2) request = Some c"
proof -
  have 3: "(3::nat) = Suc (Suc (Suc 0))" by simp
  obtain t0 r0 where a: "net n request = (t0, r0)" by (cases "net n request") auto
  obtain t1 r1 where b: "net (Suc n) request = (t1, r1)" by (cases "net (Suc n) request") auto
  obtain t2 r2 where c: "net (Suc (Suc n)) request = (t2, r2)"
    by (cases "net (Suc (Suc n))  request") auto
  from assms show ?thesis unfolding 3
    by (simp add: a b c measured_def split: option.splits)
qed

lemma threshold_of_three:
  "threshold [a, b, c]
     = (a + b + c) / 3
       + 3 * sqrt (((a - (a + b + c) / 3)\<^sup>2 + (b - (a + b + c) / 3)\<^sup>2 + (c - (a + b + c) / 3)\<^sup>2) / 3)
       + 2"
  by (simp add: threshold_def mean_def std_dev_def base_delay_def add.assoc)

lemma test_time_based_traces:
  assumes run: "test_time_based net vulns n url param http_method form_data = Some (vulns', n', trace, trace')"
  shows "\<exists>ts r1 n1 r.
           sample_baseline net (baseline_request url http_method form_data) n 3 = Some ts
         \<and> first_match (standard_probe net (threshold ts) (mean ts) url param http_method form_data)
              (n + 3) standard_payloads = (r1, n1, trace)
         \<and> (case r1 of
               Some v \<Rightarrow> trace' = [] \<and> r = r1 \<and> n' = n1
             | None \<Rightarrow> first_match (aggressive_probe net (threshold ts) (mean ts) url param http_method form_data)
                         n1 aggressive_payloads = (r, n', trace'))
         \<and> vulns' = add_vulnerability vulns r"
proof -
  let ?breq = "baseline_request url http_method form_data"
  from run obtain ts where ts: "sample_baseline net ?breq n 3 = Some ts"
    unfolding test_time_based_def by (auto split: option.splits)
  let ?std = "standard_probe net (threshold ts) (mean ts) url param http_method form_data"
  let ?agg = "aggressive_probe net (threshold ts) (mean ts) url param http_method form_data"
  obtain r1 n1 tr1 where f1: "first_match ?std (n + 3) standard_payloads = (r1, n1, tr1)"
    by (cases "first_match ?std (n + 3) standard_payloads") auto
  show ?thesis
  proof (cases r1)
    case (Some v)
    with run ts f1 have e: "vulns' = vulns @ [v]" "n' = n1" "trace = tr1" "trace' = []"
      unfolding test_time_based_def Let_def standard_payloads_def by simp_all
    have a: "vulns' = add_vulnerability vulns r1" using e Some by (simp add: add_vulnerability_def)
    have c: "case r1 of Some v \<Rightarrow> trace' = [] \<and> r1 = r1 \<and> n' = n1
             | None \<Rightarrow> first_match ?agg n1 aggressive_payloads = (r1, n', trace')"
      using Some e by simp
    from ts f1 [folded e(3)] c a show ?thesis by blast
  next
    case None
    obtain r2 n2 tr2 where f2: "first_match ?agg n1 aggressive_payloads = (r2, n2, tr2)"
      by (cases "first_match ?agg n1 aggressive_payloads") auto
    with run ts f1 None have e: "vulns' = add_vulnerability vulns r2" "n' = n2" "trace = tr1" "trace' = tr2"
      unfolding test_time_based_def Let_def standard_payloads_def by simp_all
    have c: "case r1 of Some v \<Rightarrow> trace' = [] \<and> r2 = r1 \<and> n' = n1
             | None \<Rightarrow> first_match ?agg n1 aggressive_payloads = (r2, n', trace')"
      using None f2 e by simp
    from ts f1 [folded e(3)] c e(1) show ?thesis by blast
  qed
qed

text \<open>
  C1, as amended. A run of the plugin scanner's \<open>_test_time_based\<close> that gets past its
  baseline requests has sent exactly three of them, the first three requests of the run,
  all answered, and its threshold is the mean of their three times plus three times
  their standard deviation plus the base delay of 2 seconds. It then tries the standard
  payloads in their order and, when none of them led to a finding, the aggressive
  payloads in theirs, and ends with the first payload that leads to a finding. Every
  payload's request is the next request of the run. A payload whose request took less
  than the threshold never leads to a finding. A standard payload whose request took at
  least the threshold is sent once more, and it leads to a finding exactly when both
  requests were answered and both took at least the threshold. The finding is a
  vulnerability of severity HIGH for that payload; a \<open>Vulnerability\<close> has no confidence.
  The confidence belongs to \<open>_detect_time_based\<close> of the service scanner, which compares
  one probe with one baseline response: it reports vulnerable exactly when the probe took
  more than one second longer, and then with a confidence of at least 0.5.
\<close>

theorem test_time_based_threshold:
  assumes run: "test_time_based net vulns n url param_name http_method form_data
                  = Some (vulns', n', trace, trace')"
  shows "(\<exists>a b c r.
            measured net n (baseline_request url http_method form_data) = Some a
          \<and> measured net (n + 1) (baseline_request url http_method form_data) = Some b
          \<and> measured net (n + 2) (baseline_request url http_method form_data) = Some c
          \<and> threshold [a, b, c]
               = (a + b + c) / 3
                 + 3 * sqrt (((a - (a + b + c) / 3)\<^sup>2 + (b - (a + b + c) / 3)\<^sup>2
                              + (c - (a + b + c) / 3)\<^sup>2) / 3)
                 + 2
          \<and> map pr_payload trace = take (length trace) standard_payloads
          \<and> map pr_payload trace' = take (length trace') aggressive_payloads
          \<and> (no_finding trace \<longrightarrow> length trace = length standard_payloads)
          \<and> (\<not> no_finding trace \<longrightarrow> trace' = [])
          \<and> (r = None \<longrightarrow> length trace' = length aggressive_payloads)
          \<and> (\<forall>i<length trace.
                 probe_timing net True (threshold [a, b, c]) url param_name http_method form_data
                   (n + 3 + sum_list (map pr_requests (take i trace))) (standard_payloads ! i) (trace ! i)
                 \<and> standard_rule (threshold [a, b, c]) (trace ! i))
          \<and> (\<forall>j<length trace'.
                 probe_timing net False (threshold [a, b, c]) url param_name http_method form_data
                   (n + 3 + sum_list (map pr_requests trace) + sum_list (map pr_requests (take j trace')))
                   (aggressive_payloads ! j) (trace' ! j)
                 \<and> needs_threshold (threshold [a, b, c]) (trace' ! j))
          \<and> outcome_matches r (trace @ trace')
          \<and> vulns' = add_vulnerability vulns r
          \<and> n' = n + 3 + sum_list (map pr_requests (trace @ trace')))
       \<and> (\<forall>b m. (fst (detect_time_based b m) \<longleftrightarrow> response_time m - response_time b > 1)
                \<and> (fst (detect_time_based b m) \<longrightarrow> 0.5 \<le> fst (snd (detect_time_based b m))))"
proof -
  let ?breq = "baseline_request url http_method form_data"
  from test_time_based_traces [OF run] obtain ts r1 n1 r where
    ts: "sample_baseline net ?breq n 3 = Some ts"
    and f1: "first_match (standard_probe net (threshold ts) (mean ts) url param_name http_method form_data)
              (n + 3) standard_payloads = (r1, n1, trace)"
    and cs: "case r1 of
               Some v \<Rightarrow> trace' = [] \<and> r = r1 \<and> n' = n1
             | None \<Rightarrow> first_match (aggressive_probe net (threshold ts) (mean ts) url param_name http_method form_data)
                         n1 aggressive_payloads = (r, n', trace')"
    and v: "vulns' = add_vulnerability vulns r"
    by blast
  from sample_baseline_measured [OF ts] obtain a b c where
    abc: "ts = [a, b, c]" and ma: "measured net n ?breq = Some a"
    and mb: "measured net (n + 1) ?breq = Some b" and mc: "measured net (n + 2) ?breq = Some c"
    by blast
  let ?thr = "threshold [a, b, c]"
  let ?std = "standard_probe net ?thr (mean [a, b, c]) url param_name http_method form_data"
  let ?agg = "aggressive_probe net ?thr (mean [a, b, c]) url param_name http_method form_data"
  note f1' = f1 [unfolded abc]
  have t1: "list_all (standard_rule ?thr) trace \<and> outcome_matches r1 trace
       \<and> map pr_payload trace = take (length trace) standard_payloads
       \<and> n1 = n + 3 + sum_list (map pr_requests trace)
       \<and> (r1 = None \<longrightarrow> length trace = length standard_payloads)"
    by (rule first_match_trace [OF _ f1']) (rule standard_probe_step)
  have a1: "list_all (standard_rule ?thr) trace" by (rule conjunct1 [OF t1])
  have a2: "outcome_matches r1 trace" by (rule conjunct1 [OF conjunct2 [OF t1]])
  have a3: "map pr_payload trace = take (length trace) standard_payloads"
    by (rule conjunct1 [OF conjunct2 [OF conjunct2 [OF t1]]])
  have a4: "n1 = n + 3 + sum_list (map pr_requests trace)"
    by (rule conjunct1 [OF conjunct2 [OF conjunct2 [OF conjunct2 [OF t1]]]])
  have a5: "r1 = None \<longrightarrow> length trace = length standard_payloads"
    by (rule conjunct2 [OF conjunct2 [OF conjunct2 [OF conjunct2 [OF t1]]]])
  have p1: "\<forall>i<length trace.
              probe_timing net True ?thr url param_name http_method form_data
                (n + 3 + sum_list (map pr_requests (take i trace))) (standard_payloads ! i) (trace ! i)"
    by (rule first_match_positions [OF _ f1']) (rule standard_probe_timing)
  have s1: "\<forall>i<length trace.
                 probe_timing net True ?thr url param_name http_method form_data
                   (n + 3 + sum_list (map pr_requests (take i trace))) (standard_payloads ! i) (trace ! i)
                 \<and> standard_rule ?thr (trace ! i)"
    using p1 a1 by (simp add: list_all_length)
  have th: "?thr = (a + b + c) / 3
                 + 3 * sqrt (((a - (a + b + c) / 3)\<^sup>2 + (b - (a + b + c) / 3)\<^sup>2
                              + (c - (a + b + c) / 3)\<^sup>2) / 3)
                 + 2"
    by (rule threshold_of_three)
  have d: "\<forall>b m. (fst (detect_time_based b m) \<longleftrightarrow> response_time m - response_time b > 1)
                \<and> (fst (detect_time_based b m) \<longrightarrow> 0.5 \<le> fst (snd (detect_time_based b m)))"
    using detect_time_based_flag detect_time_based_at_least_half by blast
  have nf: "no_finding trace \<longleftrightarrow> r1 = None"
  proof (cases r1)
    case None
    with a2 show ?thesis by (simp add: outcome_matches_def)
  next
    case (Some w)
    with a2 have "trace \<noteq> []" "pr_found (last trace)" by (simp_all add: outcome_matches_def finding_of_def)
    then have "\<not> no_finding trace" by (auto simp: no_finding_def list_all_iff)
    with Some show ?thesis by simp
  qed
  have main: "map pr_payload trace' = take (length trace') aggressive_payloads
          \<and> (no_finding trace \<longrightarrow> length trace = length standard_payloads)
          \<and> (\<not> no_finding trace \<longrightarrow> trace' = [])
          \<and> (r = None \<longrightarrow> length trace' = length aggressive_payloads)
          \<and> (\<forall>j<length trace'.
                 probe_timing net False ?thr url param_name http_method form_data
                   (n + 3 + sum_list (map pr_requests trace) + sum_list (map pr_requests (take j trace')))
                   (aggressive_payloads ! j) (trace' ! j)
                 \<and> needs_threshold ?thr (trace' ! j))
          \<and> outcome_matches r (trace @ trace')
          \<and> n' = n + 3 + sum_list (map pr_requests (trace @ trace'))"
  proof (cases r1)
    case (Some w)
    with cs have e: "trace' = []" "r = r1" "n' = n1" by simp_all
    have x1: "map pr_payload trace' = take (length trace') aggressive_payloads" using e by simp
    have x2: "no_finding trace \<longrightarrow> length trace = length standard_payloads" using nf Some by simp
    have x3: "\<not> no_finding trace \<longrightarrow> trace' = []" using e by simp
    have x4: "r = None \<longrightarrow> length trace' = length aggressive_payloads" using e Some by simp
    have x5: "\<forall>j<length trace'.
                 probe_timing net False ?thr url param_name http_method form_data
                   (n + 3 + sum_list (map pr_requests trace) + sum_list (map pr_requests (take j trace')))
                   (aggressive_payloads ! j) (trace' ! j)
                 \<and> needs_threshold ?thr (trace' ! j)" using e by simp
    have x6: "outcome_matches r (trace @ trace')" using e a2 by simp
    have x7: "n' = n + 3 + sum_list (map pr_requests (trace @ trace'))" using e a4 by simp
    show ?thesis by (intro conjI x1 x2 x3 x4 x5 x6 x7)
  next
    case None
    with cs have f2: "first_match ?agg n1 aggressive_payloads = (r, n', trace')"
      unfolding abc by simp
    have t2: "list_all (aggressive_rule ?thr) trace' \<and> outcome_matches r trace'
       \<and> map pr_payload trace' = take (length trace') aggressive_payloads
       \<and> n' = n1 + sum_list (map pr_requests trace')
       \<and> (r = None \<longrightarrow> length trace' = length aggressive_payloads)"
      by (rule first_match_trace [OF _ f2]) (rule aggressive_probe_step)
    have b1: "list_all (aggressive_rule ?thr) trace'" by (rule conjunct1 [OF t2])
    have b2: "outcome_matches r trace'" by (rule conjunct1 [OF conjunct2 [OF t2]])
    have x1: "map pr_payload trace' = take (length trace') aggressive_payloads"
      by (rule conjunct1 [OF conjunct2 [OF conjunct2 [OF t2]]])
    have b4: "n' = n1 + sum_list (map pr_requests trace')"
      by (rule conjunct1 [OF conjunct2 [OF conjunct2 [OF conjunct2 [OF t2]]]])
    have x4: "r = None \<longrightarrow> length trace' = length aggressive_payloads"
      by (rule conjunct2 [OF conjunct2 [OF conjunct2 [OF conjunct2 [OF t2]]]])
    have p2: "\<forall>j<length trace'.
              probe_timing net False ?thr url param_name http_method form_data
                (n1 + sum_list (map pr_requests (take j trace'))) (aggressive_payloads ! j) (trace' ! j)"
      by (rule first_match_positions [OF _ f2]) (rule aggressive_probe_timing)
    have b1': "\<forall>j<length trace'. needs_threshold ?thr (trace' ! j)"
      using b1 aggressive_rule_needs_threshold by (simp add: list_all_length)
    have x5: "\<forall>j<length trace'.
                 probe_timing net False ?thr url param_name http_method form_data
                   (n + 3 + sum_list (map pr_requests trace) + sum_list (map pr_requests (take j trace')))
                   (aggressive_payloads ! j) (trace' ! j)
                 \<and> needs_threshold ?thr (trace' ! j)"
      using p2 b1' unfolding a4 by simp
    have x2: "no_finding trace \<longrightarrow> length trace = length standard_payloads" using a5 None by simp
    have x3: "\<not> no_finding trace \<longrightarrow> trace' = []" using nf None by simp
    from nf None have "no_finding trace" by simp
    then have x6: "outcome_matches r (trace @ trace')" using b2 by (rule outcome_matches_append)
    have x7: "n' = n + 3 + sum_list (map pr_requests (trace @ trace'))" using a4 b4 by simp
    show ?thesis by (intro conjI x1 x2 x3 x4 x5 x6 x7)
  qed
  have m1: "map pr_payload trace' = take (length trace') aggressive_payloads" by (rule conjunct1 [OF main])
  have m2: "no_finding trace \<longrightarrow> length trace = length standard_payloads"
    by (rule conjunct1 [OF conjunct2 [OF main]])
  have m3: "\<not> no_finding trace \<longrightarrow> trace' = []"
    by (rule conjunct1 [OF conjunct2 [OF conjunct2 [OF main]]])
  have m4: "r = None \<longrightarrow> length trace' = length aggressive_payloads"
    by (rule conjunct1 [OF conjunct2 [OF conjunct2 [OF conjunct2 [OF main]]]])
  have m5: "\<forall>j<length trace'.
                 probe_timing net False ?thr url param_name http_method form_data
                   (n + 3 + sum_list (map pr_requests trace) + sum_list (map pr_requests (take j trace')))
                   (aggressive_payloads ! j) (trace' ! j)
                 \<and> needs_threshold ?thr (trace' ! j)"
    by (rule conjunct1 [OF conjunct2 [OF conjunct2 [OF conjunct2 [OF conjunct2 [OF main]]]]])
  have m6: "outcome_matches r (trace @ trace')"
    by (rule conjunct1 [OF conjunct2 [OF conjunct2 [OF conjunct2 [OF conjunct2 [OF conjunct2 [OF main]]]]]])
  have m7: "n' = n + 3 + sum_list (map pr_requests (trace @ trace'))"
    by (rule conjunct2 [OF conjunct2 [OF conjunct2 [OF conjunct2 [OF conjunct2 [OF conjunct2 [OF main]]]]]])
  have "measured net n ?breq = Some a
          \<and> measured net (n + 1) ?breq = Some b
          \<and> measured net (n + 2) ?breq = Some c
          \<and> ?thr = (a + b + c) / 3
                 + 3 * sqrt (((a - (a + b + c) / 3)\<^sup>2 + (b - (a + b + c) / 3)\<^sup>2
                              + (c - (a + b + c) / 3)\<^sup>2) / 3)
                 + 2
          \<and> map pr_payload trace = take (length trace) standard_payloads
          \<and> map pr_payload trace' = take (length trace') aggressive_payloads
          \<and> (no_finding trace \<longrightarrow> length trace = length standard_payloads)
          \<and> (\<not> no_finding trace \<longrightarrow> trace' = [])
          \<and> (r = None \<longrightarrow> length trace' = length aggressive_payloads)
          \<and> (\<forall>i<length trace.
                 probe_timing net True ?thr url param_name http_method form_data
                   (n + 3 + sum_list (map pr_requests (take i trace))) (standard_payloads ! i) (trace ! i)
                 \<and> standard_rule ?thr (trace ! i))
          \<and> (\<forall>j<length trace'.
                 probe_timing net False ?thr url param_name http_method form_data
                   (n + 3 + sum_list (map pr_requests trace) + sum_list (map pr_requests (take j trace')))
                   (aggressive_payloads ! j) (trace' ! j)
                 \<and> needs_threshold ?thr (trace' ! j))
          \<and> outcome_matches r (trace @ trace')
          \<and> vulns' = add_vulnerability vulns r
          \<and> n' = n + 3 + sum_list (map pr_requests (trace @ trace'))"
    by (intro conjI ma mb mc th a3 m1 m2 m3 m4 s1 m5 m6 v m7)
  then have ex: "\<exists>a b c r.
            measured net n ?breq = Some a
          \<and> measured net (n + 1) ?breq = Some b
          \<and> measured net (n + 2) ?breq = Some c
          \<and> threshold [a, b, c] = (a + b + c) / 3
                 + 3 * sqrt (((a - (a + b + c) / 3)\<^sup>2 + (b - (a + b + c) / 3)\<^sup>2
                              + (c - (a + b + c) / 3)\<^sup>2) / 3)
                 + 2
          \<and> map pr_payload trace = take (length trace) standard_payloads
          \<and> map pr_payload trace' = take (length trace') aggressive_payloads
          \<and> (no_finding trace \<longrightarrow> length trace = length standard_payloads)
          \<and> (\<not> no_finding trace \<longrightarrow> trace' = [])
          \<and> (r = None \<longrightarrow> length trace' = length aggressive_payloads)
          \<and> (\<forall>i<length trace.
                 probe_timing net True (threshold [a, b, c]) url param_name http_method form_data
                   (n + 3 + sum_list (map pr_requests (take i trace))) (standard_payloads ! i) (trace ! i)
                 \<and> standard_rule (threshold [a, b, c]) (trace ! i))
          \<and> (\<forall>j<length trace'.
                 probe_timing net False (threshold [a, b, c]) url param_name http_method form_data
                   (n + 3 + sum_list (map pr_requests trace) + sum_list (map pr_requests (take j trace')))
                   (aggressive_payloads ! j) (trace' ! j)
                 \<and> needs_threshold (threshold [a, b, c]) (trace' ! j))
          \<and> outcome_matches r (trace @ trace')
          \<and> vulns' = add_vulnerability vulns r
          \<and> n' = n + 3 + sum_list (map pr_requests (trace @ trace'))"
    by (intro exI)
  from ex d show ?thesis by (rule conjI)
qed

text \<open>
  A form whose baseline requests take 0.5, 0.5 and 3.5 seconds: the mean is 1.5 seconds,
  the standard deviation is the square root of 2, and the threshold is about 7.74
  seconds. The first payload takes 7 seconds, which is below the threshold and is not
  repeated; the second payload takes 8 seconds, and 8 seconds once more, and leads to the
  finding.
\<close>

definition plain_response :: http_response where
  "plain_response = \<lparr>resp_status = 200, resp_headers = [], resp_body = Some ''welcome'', time_ms = 100\<rparr>"

definition jittery_net :: plugin_net where
  "jittery_net k request =
     (if k < 2 then 1 / 2 else if k = 2 then 7 / 2 else if k = 3 then 7 else 8, Some plain_response)"

definition login_form :: "(string \<times> string) list" where
  "login_form = [(''user'', ''guest'')]"

definition first_time_payload :: string where
  "first_time_payload = [sq] @ '' AND (SELECT * FROM (SELECT(SLEEP(2)))a) -- ''"

definition second_time_payload :: string where
  "second_time_payload = [dq] @ '' AND (SELECT * FROM (SELECT(SLEEP(2)))a) -- ''"

definition slow_probe :: probe where
  "slow_probe = \<lparr>pr_payload = first_time_payload, pr_first = Some 7,
                  pr_repeat = None, pr_requests = 1, pr_found = False\<rparr>"

definition found_probe :: probe where
  "found_probe = \<lparr>pr_payload = second_time_payload, pr_first = Some 8,
                   pr_repeat = Some 8, pr_requests = 2, pr_found = True\<rparr>"

definition jittery_finding :: vulnerability where
  "jittery_finding =
     time_vulnerability ''user'' second_time_payload
       \<lparr>req_url = ''http://shop.test/login'', req_method = ''POST'',
        req_data = Some [(''user'', second_time_payload)]\<rparr>
       plain_response 8 (3 / 2)"

lemma standard_payloads_first_two:
  "standard_payloads = first_time_payload # second_time_payload # drop 2 standard_payloads"
  unfolding first_time_payload_def second_time_payload_def by code_simp

lemma mean_jittery: "mean [1 / 2, 1 / 2, 7 / 2] = 3 / 2"
  by (simp add: mean_def)

lemma threshold_jittery: "threshold [1 / 2, 1 / 2, 7 / 2] = 7 / 2 + 3 * sqrt 2"
  by (simp add: threshold_of_three power2_eq_square)

lemma sqrt_2_bounds: "7 / 6 < sqrt 2" "sqrt 2 \<le> 3 / 2"
proof -
  show "7 / 6 < sqrt 2" by (rule real_less_rsqrt) (simp add: power2_eq_square)
  show "sqrt 2 \<le> 3 / 2" by (rule real_le_lsqrt) (simp_all add: power2_eq_square)
qed

lemma threshold_jittery_bounds:
  "\<not> threshold [1 / 2, 1 / 2, 7 / 2] \<le> 7" "threshold [1 / 2, 1 / 2, 7 / 2] \<le> 8"
  using sqrt_2_bounds unfolding threshold_jittery by simp_all

lemma jittery_run:
  "test_time_based jittery_net [] 0 ''http://shop.test/login'' ''user'' ''POST'' (Some login_form)
     = Some ([jittery_finding], 6, [slow_probe, found_probe], [])"
proof -
  have b: "sample_baseline jittery_net (baseline_request ''http://shop.test/login'' ''POST'' (Some login_form)) 0 3
             = Some [1 / 2, 1 / 2, 7 / 2]"
    by (simp add: numeral_3_eq_3 jittery_net_def)
  have p1: "standard_probe jittery_net (threshold [1 / 2, 1 / 2, 7 / 2]) (3 / 2) ''http://shop.test/login'' ''user'' ''POST'' (Some login_form) 3 first_time_payload
              = (None, 4, slow_probe)"
    by (simp add: standard_probe_def probe_request_def test_data_of_def login_form_def
        jittery_net_def slow_probe_def threshold_jittery_bounds)
  have p2: "standard_probe jittery_net (threshold [1 / 2, 1 / 2, 7 / 2]) (3 / 2) ''http://shop.test/login'' ''user'' ''POST'' (Some login_form) 4 second_time_payload
              = (Some jittery_finding, 6, found_probe)"
    by (simp add: standard_probe_def probe_request_def test_data_of_def login_form_def
        jittery_net_def found_probe_def jittery_finding_def threshold_jittery_bounds)
  have f: "first_match (standard_probe jittery_net (threshold [1 / 2, 1 / 2, 7 / 2]) (3 / 2) ''http://shop.test/login'' ''user'' ''POST'' (Some login_form)) 3
             standard_payloads = (Some jittery_finding, 6, [slow_probe, found_probe])"
    by (subst standard_payloads_first_two) (simp add: p1 p2)
  show ?thesis
    unfolding test_time_based_def b standard_payloads_def [symmetric]
    by (simp add: Let_def mean_jittery f)
qed

theorem test_time_based_threshold_witness:
  "test_time_based jittery_net [] 0 ''http://shop.test/login'' ''user'' ''POST'' (Some login_form)
     = Some ([jittery_finding], 6, [slow_probe, found_probe], [])
   \<and> measured jittery_net 0 (baseline_request ''http://shop.test/login'' ''POST'' (Some login_form)) = Some (1 / 2)
   \<and> measured jittery_net 1 (baseline_request ''http://shop.test/login'' ''POST'' (Some login_form)) = Some (1 / 2)
   \<and> measured jittery_net 2 (baseline_request ''http://shop.test/login'' ''POST'' (Some login_form)) = Some (7 / 2)
   \<and> threshold [1 / 2, 1 / 2, 7 / 2] = 7 / 2 + 3 * sqrt 2
   \<and> 7 < threshold [1 / 2, 1 / 2, 7 / 2] \<and> threshold [1 / 2, 1 / 2, 7 / 2] \<le> 8
   \<and> probe_timing jittery_net True (threshold [1 / 2, 1 / 2, 7 / 2]) ''http://shop.test/login'' ''user'' ''POST'' (Some login_form) 3 first_time_payload slow_probe
   \<and> standard_rule (threshold [1 / 2, 1 / 2, 7 / 2]) slow_probe
   \<and> pr_first slow_probe = Some 7 \<and> \<not> pr_found slow_probe
   \<and> probe_timing jittery_net True (threshold [1 / 2, 1 / 2, 7 / 2]) ''http://shop.test/login'' ''user'' ''POST'' (Some login_form) 4 second_time_payload found_probe
   \<and> standard_rule (threshold [1 / 2, 1 / 2, 7 / 2]) found_probe
   \<and> pr_first found_probe = Some 8 \<and> pr_repeat found_probe = Some 8 \<and> pr_found found_probe
   \<and> v_severity jittery_finding = SEV_HIGH \<and> v_payload jittery_finding = Some second_time_payload"
proof -
  note t = test_time_based_threshold [OF jittery_run]
  have ex: "\<exists>a b c r.
            measured jittery_net 0 (baseline_request ''http://shop.test/login'' ''POST'' (Some login_form)) = Some a
          \<and> measured jittery_net (0 + 1) (baseline_request ''http://shop.test/login'' ''POST'' (Some login_form)) = Some b
          \<and> measured jittery_net (0 + 2) (baseline_request ''http://shop.test/login'' ''POST'' (Some login_form)) = Some c
          \<and> threshold [a, b, c]
               = (a + b + c) / 3
                 + 3 * sqrt (((a - (a + b + c) / 3)\<^sup>2 + (b - (a + b + c) / 3)\<^sup>2
                              + (c - (a + b + c) / 3)\<^sup>2) / 3)
                 + 2
          \<and> map pr_payload [slow_probe, found_probe] = take (length [slow_probe, found_probe]) standard_payloads
          \<and> map pr_payload ([] :: probe list) = take (length ([] :: probe list)) aggressive_payloads
          \<and> (no_finding [slow_probe, found_probe] \<longrightarrow> length [slow_probe, found_probe] = length standard_payloads)
          \<and> (\<not> no_finding [slow_probe, found_probe] \<longrightarrow> ([] :: probe list) = [])
          \<and> (r = None \<longrightarrow> length ([] :: probe list) = length aggressive_payloads)
          \<and> (\<forall>i<length [slow_probe, found_probe].
                 probe_timing jittery_net True (threshold [a, b, c]) ''http://shop.test/login'' ''user'' ''POST'' (Some login_form)
                   (0 + 3 + sum_list (map pr_requests (take i [slow_probe, found_probe]))) (standard_payloads ! i) ([slow_probe, found_probe] ! i)
                 \<and> standard_rule (threshold [a, b, c]) ([slow_probe, found_probe] ! i))
          \<and> (\<forall>j<length ([] :: probe list).
                 probe_timing jittery_net False (threshold [a, b, c]) ''http://shop.test/login'' ''user'' ''POST'' (Some login_form)
                   (0 + 3 + sum_list (map pr_requests [slow_probe, found_probe]) + sum_list (map pr_requests (take j ([] :: probe list))))
                   (aggressive_payloads ! j) (([] :: probe list) ! j)
                 \<and> needs_threshold (threshold [a, b, c]) (([] :: probe list) ! j))
          \<and> outcome_matches r ([slow_probe, found_probe] @ ([] :: probe list))
          \<and> [jittery_finding] = add_vulnerability [] r
          \<and> 6 = 0 + 3 + sum_list (map pr_requests ([slow_probe, found_probe] @ ([] :: probe list)))"
    by (rule conjunct1 [OF t])
  then obtain a b c r where big:
           "measured jittery_net 0 (baseline_request ''http://shop.test/login'' ''POST'' (Some login_form)) = Some a
          \<and> measured jittery_net (0 + 1) (baseline_request ''http://shop.test/login'' ''POST'' (Some login_form)) = Some b
          \<and> measured jittery_net (0 + 2) (baseline_request ''http://shop.test/login'' ''POST'' (Some login_form)) = Some c
          \<and> threshold [a, b, c]
               = (a + b + c) / 3
                 + 3 * sqrt (((a - (a + b + c) / 3)\<^sup>2 + (b - (a + b + c) / 3)\<^sup>2
                              + (c - (a + b + c) / 3)\<^sup>2) / 3)
                 + 2
          \<and> map pr_payload [slow_probe, found_probe] = take (length [slow_probe, found_probe]) standard_payloads
          \<and> map pr_payload ([] :: probe list) = take (length ([] :: probe list)) aggressive_payloads
          \<and> (no_finding [slow_probe, found_probe] \<longrightarrow> length [slow_probe, found_probe] = length standard_payloads)
          \<and> (\<not> no_finding [slow_probe, found_probe] \<longrightarrow> ([] :: probe list) = [])
          \<and> (r = None \<longrightarrow> length ([] :: probe list) = length aggressive_payloads)
          \<and> (\<forall>i<length [slow_probe, found_probe].
                 probe_timing jittery_net True (threshold [a, b, c]) ''http://shop.test/login'' ''user'' ''POST'' (Some login_form)
                   (0 + 3 + sum_list (map pr_requests (take i [slow_probe, found_probe]))) (standard_payloads ! i) ([slow_probe, found_probe] ! i)
                 \<and> standard_rule (threshold [a, b, c]) ([slow_probe, found_probe] ! i))
          \<and> (\<forall>j<length ([] :: probe list).
                 probe_timing jittery_net False (threshold [a, b, c]) ''http://shop.test/login'' ''user'' ''POST'' (Some login_form)
                   (0 + 3 + sum_list (map pr_requests [slow_probe, found_probe]) + sum_list (map pr_requests (take j ([] :: probe list))))
                   (aggressive_payloads ! j) (([] :: probe list) ! j)
                 \<and> needs_threshold (threshold [a, b, c]) (([] :: probe list) ! j))
          \<and> outcome_matches r ([slow_probe, found_probe] @ ([] :: probe list))
          \<and> [jittery_finding] = add_vulnerability [] r
          \<and> 6 = 0 + 3 + sum_list (map pr_requests ([slow_probe, found_probe] @ ([] :: probe list)))"
    by (elim exE)
  have ma: "measured jittery_net 0 (baseline_request ''http://shop.test/login'' ''POST'' (Some login_form)) = Some a" by (rule conjunct1 [OF big])
  have mb: "measured jittery_net (0 + 1) (baseline_request ''http://shop.test/login'' ''POST'' (Some login_form)) = Some b"
    by (rule conjunct1 [OF conjunct2 [OF big]])
  have mc: "measured jittery_net (0 + 2) (baseline_request ''http://shop.test/login'' ''POST'' (Some login_form)) = Some c"
    by (rule conjunct1 [OF conjunct2 [OF conjunct2 [OF big]]])
  have a: "a = 1 / 2" using ma by (simp add: measured_def jittery_net_def)
  have b: "b = 1 / 2" using mb by (simp add: measured_def jittery_net_def)
  have c: "c = 7 / 2" using mc by (simp add: measured_def jittery_net_def)
  have s: "\<forall>i<length [slow_probe, found_probe].
                 probe_timing jittery_net True (threshold [a, b, c]) ''http://shop.test/login'' ''user'' ''POST'' (Some login_form)
                   (0 + 3 + sum_list (map pr_requests (take i [slow_probe, found_probe]))) (standard_payloads ! i) ([slow_probe, found_probe] ! i)
                 \<and> standard_rule (threshold [a, b, c]) ([slow_probe, found_probe] ! i)"
    by (rule conjunct1 [OF conjunct2 [OF conjunct2 [OF conjunct2 [OF conjunct2 [OF conjunct2
          [OF conjunct2 [OF conjunct2 [OF conjunct2 [OF conjunct2 [OF big]]]]]]]]]])
  have p0: "standard_payloads ! 0 = first_time_payload" "standard_payloads ! 1 = second_time_payload"
    by (subst standard_payloads_first_two, simp)+
  have "(0::nat) < length [slow_probe, found_probe]" by simp
  with s have s0: "probe_timing jittery_net True (threshold [a, b, c]) ''http://shop.test/login'' ''user'' ''POST'' (Some login_form)
                   (0 + 3 + sum_list (map pr_requests (take 0 [slow_probe, found_probe]))) (standard_payloads ! 0) ([slow_probe, found_probe] ! 0)
                 \<and> standard_rule (threshold [a, b, c]) ([slow_probe, found_probe] ! 0)" by blast
  have "(1::nat) < length [slow_probe, found_probe]" by simp
  with s have s1: "probe_timing jittery_net True (threshold [a, b, c]) ''http://shop.test/login'' ''user'' ''POST'' (Some login_form)
                   (0 + 3 + sum_list (map pr_requests (take 1 [slow_probe, found_probe]))) (standard_payloads ! 1) ([slow_probe, found_probe] ! 1)
                 \<and> standard_rule (threshold [a, b, c]) ([slow_probe, found_probe] ! 1)" by blast
  have i0: "0 + 3 + sum_list (map pr_requests (take 0 [slow_probe, found_probe])) = 3" by simp
  have i1: "0 + 3 + sum_list (map pr_requests (take 1 [slow_probe, found_probe])) = 4" by (simp add: slow_probe_def)
  have e0: "[slow_probe, found_probe] ! 0 = slow_probe" "[slow_probe, found_probe] ! 1 = found_probe" by simp_all
  note s0' = s0 [unfolded i0 e0 p0 a b c]
  note s1' = s1 [unfolded i1 e0 p0 a b c]
  have w1: "probe_timing jittery_net True (threshold [1 / 2, 1 / 2, 7 / 2]) ''http://shop.test/login'' ''user'' ''POST'' (Some login_form) 3 first_time_payload slow_probe"
    by (rule conjunct1 [OF s0'])
  have w2: "standard_rule (threshold [1 / 2, 1 / 2, 7 / 2]) slow_probe" by (rule conjunct2 [OF s0'])
  have w3: "probe_timing jittery_net True (threshold [1 / 2, 1 / 2, 7 / 2]) ''http://shop.test/login'' ''user'' ''POST'' (Some login_form) 4 second_time_payload found_probe"
    by (rule conjunct1 [OF s1'])
  have w4: "standard_rule (threshold [1 / 2, 1 / 2, 7 / 2]) found_probe" by (rule conjunct2 [OF s1'])
  have n1: "measured jittery_net 1 (baseline_request ''http://shop.test/login'' ''POST'' (Some login_form)) = Some (1 / 2)"
    by (simp add: measured_def jittery_net_def)
  have n2: "measured jittery_net 2 (baseline_request ''http://shop.test/login'' ''POST'' (Some login_form)) = Some (7 / 2)"
    by (simp add: measured_def jittery_net_def)
  have n0: "measured jittery_net 0 (baseline_request ''http://shop.test/login'' ''POST'' (Some login_form)) = Some (1 / 2)"
    by (simp add: measured_def jittery_net_def)
  have lo: "7 < threshold [1 / 2, 1 / 2, 7 / 2]" using threshold_jittery_bounds(1) by simp
  have f1: "pr_first slow_probe = Some 7" "\<not> pr_found slow_probe" by (simp_all add: slow_probe_def)
  have f2: "pr_first found_probe = Some 8" "pr_repeat found_probe = Some 8" "pr_found found_probe"
    by (simp_all add: found_probe_def)
  have v: "v_severity jittery_finding = SEV_HIGH" "v_payload jittery_finding = Some second_time_payload"
    by (simp_all add: jittery_finding_def time_vulnerability_def)
  show ?thesis
    by (intro conjI jittery_run n0 n1 n2 threshold_jittery lo threshold_jittery_bounds(2) w1 w2 f1 w3 w4 f2 v)
qed

text \<open>
  C1 as stated fails for the service scanner, the one whose findings carry a confidence.
  \<open>_test_sql_injection\<close> sends one baseline request and one probe, never three samples
  and never a repeat. With the shipped confidence threshold of 0.7, a baseline of 0.1
  seconds and a probe of 2.2 seconds give a time-based finding of confidence 0.7 after
  these two requests. With the threshold of 0.5 that the code falls back to when the
  setting is absent, a probe of 1.6 seconds gives a finding of confidence 0.5, although
  1.6 seconds is below the threshold of 2.1 seconds that three baseline samples of 0.1
  seconds give.
\<close>

definition time_based_mysql :: payload_info where
  "time_based_mysql = payloads ! 8"

definition lagging_site :: "real \<Rightarrow> network" where
  "lagging_site probe_time k url = Some (''welcome'', 200, if k = 0 then 1 / 10 else probe_time)"

theorem single_baseline_counterexample:
  "(case test_sql_injection (7 / 10) (lagging_site (22 / 10)) 0 ''http://shop.test/item?id=1'' ''id'' ''1''
           time_based_mysql of
      (r, k) \<Rightarrow> k = 2 \<and> map_option (\<lambda>f. (f_vulnerability_type f, f_confidence f, f_response_time_diff f)) r
                           = Some (TIME_BASED_SQLI, 7 / 10, 21 / 10))
   \<and> (case test_sql_injection (1 / 2) (lagging_site (16 / 10)) 0 ''http://shop.test/item?id=1'' ''id'' ''1''
           time_based_mysql of
      (r, k) \<Rightarrow> k = 2 \<and> map_option (\<lambda>f. (f_vulnerability_type f, f_confidence f, f_response_time_diff f)) r
                           = Some (TIME_BASED_SQLI, 1 / 2, 15 / 10))
   \<and> 16 / 10 < threshold [1 / 10, 1 / 10, 1 / 10]"
proof -
  have a: "case test_sql_injection (7 / 10) (lagging_site (22 / 10)) 0 ''http://shop.test/item?id=1'' ''id'' ''1''
           time_based_mysql of
      (r, k) \<Rightarrow> k = 2 \<and> map_option (\<lambda>f. (f_vulnerability_type f, f_confidence f, f_response_time_diff f)) r
                           = Some (TIME_BASED_SQLI, 7 / 10, 21 / 10)"
    by code_simp
  have b: "case test_sql_injection (1 / 2) (lagging_site (16 / 10)) 0 ''http://shop.test/item?id=1'' ''id'' ''1''
           time_based_mysql of
      (r, k) \<Rightarrow> k = 2 \<and> map_option (\<lambda>f. (f_vulnerability_type f, f_confidence f, f_response_time_diff f)) r
                           = Some (TIME_BASED_SQLI, 1 / 2, 15 / 10)"
    by code_simp
  have c: "16 / 10 < threshold [1 / 10, 1 / 10, 1 / 10]"
    by (simp add: threshold_of_three)
  show ?thesis by (intro conjI a b c)
qed

subsection \<open>First match wins\<close>

definition finding_key :: "finding \<Rightarrow> string \<times> string" where
  "finding_key f = (f_parameter f, f_payload f)"

definition test_key :: "(string \<times> string) \<times> payload_info \<Rightarrow> string \<times> string" where
  "test_key t = (case t of ((param_name, param_value), info) \<Rightarrow> (param_name, payload info))"

lemma record_test_keys:
  "\<exists>sub. map finding_key (vulnerabilities (record_test thr net url res t))
           = map finding_key (vulnerabilities res) @ sub
         \<and> subseq sub [test_key t]"
proof -
  obtain p v info where t: "t = ((p, v), info)" by (cases t) auto
  from record_test_vulnerabilities [of thr net url res p v info]
  consider "vulnerabilities (record_test thr net url res t) = vulnerabilities res"
    | f n' where "test_sql_injection thr net (requests_made res) url p v info = (Some f, n')"
        "vulnerabilities (record_test thr net url res t) = vulnerabilities res @ [f]"
    unfolding t by blast
  then show ?thesis
  proof cases
    case 1
    then have "map finding_key (vulnerabilities (record_test thr net url res t))
           = map finding_key (vulnerabilities res) @ [] \<and> subseq [] [test_key t]" by simp
    then show ?thesis by blast
  next
    case 2
    from test_sql_injection_Some [OF 2(1)] have "finding_key f = test_key t"
      by (simp add: finding_key_def test_key_def t)
    with 2(2) have "map finding_key (vulnerabilities (record_test thr net url res t))
           = map finding_key (vulnerabilities res) @ [test_key t] \<and> subseq [test_key t] [test_key t]"
      by simp
    then show ?thesis by blast
  qed
qed

lemma foldl_record_test_keys:
  "\<exists>sub. map finding_key (vulnerabilities (foldl (record_test thr net url) res tests))
           = map finding_key (vulnerabilities res) @ sub
         \<and> subseq sub (map test_key tests)"
proof (induction tests arbitrary: res)
  case Nil
  show ?case by simp
next
  case (Cons t tests)
  from record_test_keys [of thr net url res t] obtain s1 where
    a: "map finding_key (vulnerabilities (record_test thr net url res t))
           = map finding_key (vulnerabilities res) @ s1" and b: "subseq s1 [test_key t]" by blast
  from Cons.IH [of "record_test thr net url res t"] obtain s2 where
    c: "map finding_key (vulnerabilities (foldl (record_test thr net url) (record_test thr net url res t) tests))
           = map finding_key (vulnerabilities (record_test thr net url res t)) @ s2"
    and d: "subseq s2 (map test_key tests)" by blast
  from b d have "subseq (s1 @ s2) ([test_key t] @ map test_key tests)" by (rule list_emb_append_mono)
  then have e: "subseq (s1 @ s2) (map test_key (t # tests))" by simp
  have "map finding_key (vulnerabilities (foldl (record_test thr net url) res (t # tests)))
           = map finding_key (vulnerabilities res) @ (s1 @ s2)"
    using a c by simp
  with e show ?case by blast
qed

lemma foldl_record_test_total:
  "total_tests (foldl (record_test thr net url) res tests) = total_tests res + length tests"
proof (induction tests arbitrary: res)
  case Nil
  show ?case by simp
next
  case (Cons t tests)
  obtain p v info where t: "t = ((p, v), info)" by (cases t) auto
  have "total_tests (record_test thr net url res t) = total_tests res + 1"
    unfolding t record_test_def
    by (cases "test_sql_injection thr net (requests_made res) url p v info")
       (auto split: option.splits)
  with Cons.IH [of "record_test thr net url res t"] show ?case by simp
qed

lemma subseq_keeps_distinct:
  assumes "subseq xs ys" and "distinct ys"
  shows "distinct xs"
  using assms
proof (induction rule: list_emb.induct)
  case (list_emb_Nil ys)
  show ?case by simp
next
  case (list_emb_Cons xs ys y)
  then show ?case by simp
next
  case (list_emb_Cons2 x y xs ys)
  have "x \<notin> set xs"
  proof
    assume "x \<in> set xs"
    with list_emb_Cons2.hyps(2) obtain z where "z \<in> set ys" "x = z" by (rule list_emb_set)
    with list_emb_Cons2.hyps(1) list_emb_Cons2.prems show False by simp
  qed
  with list_emb_Cons2 show ?case by simp
qed

lemma payloads_distinct: "distinct (map payload payloads)"
  by (simp add: payloads_def sq_def dq_def)

lemma test_keys_distinct:
  assumes "distinct (map fst ps)" "distinct (map payload infos)"
  shows "distinct (map test_key (List.product ps infos))"
  using assms(1)
proof (induction ps)
  case Nil
  show ?case by simp
next
  case (Cons a ps)
  obtain p v where a: "a = (p, v)" by (cases a) auto
  have m: "map test_key (List.product (a # ps) infos)
             = map (\<lambda>i. (p, payload i)) infos @ map test_key (List.product ps infos)"
    by (simp add: a test_key_def comp_def)
  have d1: "distinct (map (\<lambda>i. (p, payload i)) infos)"
    using assms(2) by (simp add: distinct_map inj_on_def)
  have d2: "set (map (\<lambda>i. (p, payload i)) infos) \<inter> set (map test_key (List.product ps infos)) = {}"
    using Cons.prems by (force simp: a test_key_def)
  from Cons have "distinct (map test_key (List.product ps infos))" by simp
  with d1 d2 show ?case unfolding m by (simp only: distinct_append simp_thms)
qed

lemma dict_append_keys:
  "distinct (map fst d) \<Longrightarrow> distinct (map fst (dict_append d k v))"
  by (induction d) (force simp: dict_append_key_set)+

lemma parse_qs_keys_distinct: "distinct (map fst (parse_qs qs))"
proof -
  have "distinct (map fst d) \<Longrightarrow> distinct (map fst (foldl (\<lambda>d (k, v). dict_append d k v) d kvs))"
    for d kvs
  proof (induction kvs arbitrary: d)
    case Nil
    then show ?case by simp
  next
    case (Cons kv kvs)
    obtain k v where kv: "kv = (k, v)" by (cases kv) auto
    from dict_append_keys [OF Cons.prems, of k v] have "distinct (map fst (dict_append d k v))" .
    from Cons.IH [OF this] show ?case by (simp add: kv)
  qed
  from this [of "[]"] show ?thesis by (simp add: parse_qs_def)
qed

lemma extract_parameters_distinct:
  assumes "distinct (map fst (discover url))"
  shows "distinct (map fst (extract_parameters discover url))"
proof (cases "urlparse url")
  case (Inl e)
  then show ?thesis by (simp add: extract_parameters_def)
next
  case (Inr parsed)
  have "map fst (map (\<lambda>(k, vs). (k, case vs of [] \<Rightarrow> [] | v # _ \<Rightarrow> v)) xs) = map fst xs"
    for xs :: "(string \<times> string list) list"
    by (induction xs) auto
  with parse_qs_keys_distinct [of "query parsed"] assms Inr show ?thesis
    by (simp add: extract_parameters_def Let_def del: map_map)
qed

lemma scan_keys_distinct:
  assumes "distinct (map fst (discover url))"
  shows "distinct (map finding_key (vulnerabilities (scan thr net discover url)))"
proof -
  let ?ps = "extract_parameters discover url"
  let ?start = "\<lparr>vulnerabilities = [], total_tests = 0, vulnerabilities_found = 0,
                   critical_count = 0, high_count = 0, medium_count = 0,
                   parameters_tested = map fst ?ps, requests_made = 0\<rparr>"
  from foldl_record_test_keys [of thr net url ?start "List.product ?ps payloads"]
  have s: "subseq (map finding_key (vulnerabilities (scan thr net discover url)))
             (map test_key (List.product ?ps payloads))"
    by (simp add: scan_def Let_def)
  have "distinct (map test_key (List.product ?ps payloads))"
    using extract_parameters_distinct [of discover url, OF assms] payloads_distinct by (rule test_keys_distinct)
  with s show ?thesis by (rule subseq_keeps_distinct)
qed

lemma distinct_count_le_1:
  assumes "distinct (map g xs)"
  shows "length (filter (\<lambda>x. g x = k) xs) \<le> 1"
  using assms
proof (induction xs)
  case Nil
  show ?case by simp
next
  case (Cons x xs)
  show ?case
  proof (cases "g x = k")
    case True
    with Cons.prems have "\<forall>y \<in> set xs. g y \<noteq> k" by (auto simp: image_iff)
    then have "filter (\<lambda>x. g x = k) xs = []" by (simp add: filter_empty_conv)
    with True show ?thesis by simp
  next
    case False
    with Cons show ?thesis by simp
  qed
qed

lemma scan_total_tests:
  "total_tests (scan thr net discover url) = length (extract_parameters discover url) * length payloads"
  by (simp add: scan_def Let_def foldl_record_test_total)

lemma test_error_based_run:
  assumes "test_error_based net cse eee vulns n url param http_method form_data = (vulns', n', trace)"
  shows "\<exists>r. outcome_matches r trace \<and> vulns' = add_vulnerability vulns r
           \<and> list_all (\<lambda>pr. pr_requests pr \<le> 1) trace
           \<and> map pr_payload trace = take (length trace) (filter (\<lambda>pl. \<not> is_time_payload pl) test_payloads)
           \<and> n' = n + sum_list (map pr_requests trace)
           \<and> (r = None \<longrightarrow> length trace = length (filter (\<lambda>pl. \<not> is_time_payload pl) test_payloads))"
proof -
  let ?step = "error_probe net cse eee url param http_method form_data"
  let ?pls = "filter (\<lambda>pl. \<not> is_time_payload pl) test_payloads"
  obtain r where f: "first_match ?step n ?pls = (r, n', trace)" and v: "vulns' = add_vulnerability vulns r"
    using assms unfolding test_error_based_def by (cases "first_match ?step n ?pls") auto
  have t: "list_all (\<lambda>pr. pr_requests pr \<le> 1) trace \<and> outcome_matches r trace
       \<and> map pr_payload trace = take (length trace) ?pls
       \<and> n' = n + sum_list (map pr_requests trace)
       \<and> (r = None \<longrightarrow> length trace = length ?pls)"
    by (rule first_match_trace [OF _ f]) (rule error_probe_step)
  have a1: "list_all (\<lambda>pr. pr_requests pr \<le> 1) trace" by (rule conjunct1 [OF t])
  have a2: "outcome_matches r trace" by (rule conjunct1 [OF conjunct2 [OF t]])
  have a3: "map pr_payload trace = take (length trace) ?pls"
    by (rule conjunct1 [OF conjunct2 [OF conjunct2 [OF t]]])
  have a4: "n' = n + sum_list (map pr_requests trace)"
    by (rule conjunct1 [OF conjunct2 [OF conjunct2 [OF conjunct2 [OF t]]]])
  have a5: "r = None \<longrightarrow> length trace = length ?pls"
    by (rule conjunct2 [OF conjunct2 [OF conjunct2 [OF conjunct2 [OF t]]]])
  have "outcome_matches r trace \<and> vulns' = add_vulnerability vulns r
           \<and> list_all (\<lambda>pr. pr_requests pr \<le> 1) trace
           \<and> map pr_payload trace = take (length trace) ?pls
           \<and> n' = n + sum_list (map pr_requests trace)
           \<and> (r = None \<longrightarrow> length trace = length ?pls)"
    by (intro conjI a2 v a1 a3 a4 a5)
  then show ?thesis by (rule exI)
qed

text \<open>
  C2, as amended. One run of \<open>_test_error_based\<close> of the plugin scanner tries the
  payloads that are not time-based in their order, sends at most one request for each, and
  ends with the first payload that leads to a finding: the payloads after it are not
  tried, and the run adds at most one vulnerability. The service scanner's \<open>scan\<close> skips
  nothing: it tests every payload of the catalogue on every parameter, and what it
  guarantees is at most one finding for each pair of a parameter and a payload.
\<close>

theorem first_match_wins:
  assumes run: "test_error_based net cse eee vulns n url param http_method form_data = (vulns', n', trace)"
    and keys: "distinct (map fst (discover target))"
  shows "(\<exists>r. outcome_matches r trace \<and> vulns' = add_vulnerability vulns r
            \<and> list_all (\<lambda>pr. pr_requests pr \<le> 1) trace
            \<and> map pr_payload trace = take (length trace) (filter (\<lambda>pl. \<not> is_time_payload pl) test_payloads)
            \<and> n' = n + sum_list (map pr_requests trace)
            \<and> (r = None \<longrightarrow> length trace = length (filter (\<lambda>pl. \<not> is_time_payload pl) test_payloads)))
       \<and> length vulns' \<le> length vulns + 1
       \<and> total_tests (scan thr snet discover target)
           = length (extract_parameters discover target) * length payloads
       \<and> length (filter (\<lambda>f. f_parameter f = p \<and> f_payload f = pl)
                   (vulnerabilities (scan thr snet discover target))) \<le> 1"
proof -
  from test_error_based_run [OF run] obtain r where
    a: "outcome_matches r trace \<and> vulns' = add_vulnerability vulns r
           \<and> list_all (\<lambda>pr. pr_requests pr \<le> 1) trace
           \<and> map pr_payload trace = take (length trace) (filter (\<lambda>pl. \<not> is_time_payload pl) test_payloads)
           \<and> n' = n + sum_list (map pr_requests trace)
           \<and> (r = None \<longrightarrow> length trace = length (filter (\<lambda>pl. \<not> is_time_payload pl) test_payloads))"
    by blast
  then have ex: "\<exists>r. outcome_matches r trace \<and> vulns' = add_vulnerability vulns r
           \<and> list_all (\<lambda>pr. pr_requests pr \<le> 1) trace
           \<and> map pr_payload trace = take (length trace) (filter (\<lambda>pl. \<not> is_time_payload pl) test_payloads)
           \<and> n' = n + sum_list (map pr_requests trace)
           \<and> (r = None \<longrightarrow> length trace = length (filter (\<lambda>pl. \<not> is_time_payload pl) test_payloads))"
    by (rule exI)
  have "vulns' = add_vulnerability vulns r" by (rule conjunct1 [OF conjunct2 [OF a]])
  then have b: "length vulns' \<le> length vulns + 1"
    by (cases r) (simp_all add: add_vulnerability_def)
  have c: "total_tests (scan thr snet discover target)
           = length (extract_parameters discover target) * length payloads"
    by (rule scan_total_tests)
  have "length (filter (\<lambda>f. finding_key f = (p, pl)) (vulnerabilities (scan thr snet discover target))) \<le> 1"
    by (rule distinct_count_le_1 [OF scan_keys_distinct [of discover target, OF keys]])
  then have d: "length (filter (\<lambda>f. f_parameter f = p \<and> f_payload f = pl)
                   (vulnerabilities (scan thr snet discover target))) \<le> 1"
    by (simp add: finding_key_def)
  show ?thesis by (intro conjI ex b c d)
qed

text \<open>
  A form that answers every request with a database error: the first payload leads to the
  finding and no other payload is tried.
\<close>

definition sql_error_reply :: http_response where
  "sql_error_reply = \<lparr>resp_status = 500, resp_headers = [],
     resp_body = Some ''You have an error in your SQL syntax'', time_ms = 100\<rparr>"

definition broken_net :: plugin_net where
  "broken_net k request = (1 / 10, Some sql_error_reply)"

definition mentions_sql_error :: "string \<Rightarrow> bool" where
  "mentions_sql_error body = contains ''SQL syntax'' body"

definition first_error_payload :: string where
  "first_error_payload = hd test_payloads"

definition broken_probe :: probe where
  "broken_probe = \<lparr>pr_payload = first_error_payload, pr_first = Some (1 / 10),
                    pr_repeat = None, pr_requests = 1, pr_found = True\<rparr>"

definition broken_finding :: vulnerability where
  "broken_finding =
     error_vulnerability (\<lambda>body. body) ''user'' first_error_payload
       \<lparr>req_url = ''http://shop.test/login'', req_method = ''POST'',
        req_data = Some [(''user'', first_error_payload)]\<rparr>
       sql_error_reply"

lemma error_payloads_first:
  "filter (\<lambda>pl. \<not> is_time_payload pl) test_payloads
     = first_error_payload # tl (filter (\<lambda>pl. \<not> is_time_payload pl) test_payloads)"
  unfolding first_error_payload_def by code_simp

lemma broken_run:
  "test_error_based broken_net mentions_sql_error (\<lambda>body. body) [] 0
     ''http://shop.test/login'' ''user'' ''POST'' (Some login_form)
   = ([broken_finding], 1, [broken_probe])"
proof -
  have c: "mentions_sql_error ''You have an error in your SQL syntax''"
    unfolding mentions_sql_error_def by code_simp
  have p: "error_probe broken_net mentions_sql_error (\<lambda>body. body) ''http://shop.test/login'' ''user''
             ''POST'' (Some login_form) 0 first_error_payload = (Some broken_finding, 1, broken_probe)"
    by (simp add: error_probe_def probe_request_def test_data_of_def login_form_def
        broken_net_def broken_finding_def broken_probe_def sql_error_reply_def c)
  show ?thesis
    unfolding test_error_based_def
    by (subst error_payloads_first) (simp add: p add_vulnerability_def)
qed

theorem first_match_wins_witness:
  "test_error_based broken_net mentions_sql_error (\<lambda>body. body) [] 0
     ''http://shop.test/login'' ''user'' ''POST'' (Some login_form)
   = ([broken_finding], 1, [broken_probe])
   \<and> distinct (map fst ([] :: (string \<times> string) list))
   \<and> outcome_matches (Some broken_finding) [broken_probe]
   \<and> map pr_payload [broken_probe] = take 1 (filter (\<lambda>pl. \<not> is_time_payload pl) test_payloads)
   \<and> total_tests id_scan = length (extract_parameters (\<lambda>u. []) ''http://h/p?id=1'') * length payloads
   \<and> length (filter (\<lambda>f. f_parameter f = ''id'' \<and> f_payload f = [sq]) (vulnerabilities id_scan)) \<le> 1"
proof -
  have k: "distinct (map fst ((\<lambda>u. []) ''http://h/p?id=1'' :: (string \<times> string) list))" by simp
  note w = first_match_wins [where discover = "\<lambda>u. []" and target = "''http://h/p?id=1''"
      and thr = "7 / 10" and snet = error_net and p = "''id''" and pl = "[sq]", OF broken_run k]
  have ex: "\<exists>r. outcome_matches r [broken_probe] \<and> [broken_finding] = add_vulnerability [] r
            \<and> list_all (\<lambda>pr. pr_requests pr \<le> 1) [broken_probe]
            \<and> map pr_payload [broken_probe] = take (length [broken_probe]) (filter (\<lambda>pl. \<not> is_time_payload pl) test_payloads)
            \<and> 1 = 0 + sum_list (map pr_requests [broken_probe])
            \<and> (r = None \<longrightarrow> length [broken_probe] = length (filter (\<lambda>pl. \<not> is_time_payload pl) test_payloads))"
    by (rule conjunct1 [OF w])
  have d: "total_tests (scan (7 / 10) error_net (\<lambda>u. []) ''http://h/p?id=1'')
              = length (extract_parameters (\<lambda>u. []) ''http://h/p?id=1'') * length payloads"
    by (rule conjunct1 [OF conjunct2 [OF conjunct2 [OF w]]])
  have e: "length (filter (\<lambda>f. f_parameter f = ''id'' \<and> f_payload f = [sq])
                   (vulnerabilities (scan (7 / 10) error_net (\<lambda>u. []) ''http://h/p?id=1''))) \<le> 1"
    by (rule conjunct2 [OF conjunct2 [OF conjunct2 [OF w]]])
  from ex obtain r where r: "outcome_matches r [broken_probe] \<and> [broken_finding] = add_vulnerability [] r
            \<and> list_all (\<lambda>pr. pr_requests pr \<le> 1) [broken_probe]
            \<and> map pr_payload [broken_probe] = take (length [broken_probe]) (filter (\<lambda>pl. \<not> is_time_payload pl) test_payloads)
            \<and> 1 = 0 + sum_list (map pr_requests [broken_probe])
            \<and> (r = None \<longrightarrow> length [broken_probe] = length (filter (\<lambda>pl. \<not> is_time_payload pl) test_payloads))"
    by (rule exE)
  have a: "outcome_matches r [broken_probe]" by (rule conjunct1 [OF r])
  have b: "[broken_finding] = add_vulnerability [] r" by (rule conjunct1 [OF conjunct2 [OF r]])
  have c: "map pr_payload [broken_probe] = take (length [broken_probe]) (filter (\<lambda>pl. \<not> is_time_payload pl) test_payloads)"
    by (rule conjunct1 [OF conjunct2 [OF conjunct2 [OF conjunct2 [OF r]]]])
  from b have "r = Some broken_finding" by (cases r) (simp_all add: add_vulnerability_def)
  with a have a': "outcome_matches (Some broken_finding) [broken_probe]" by simp
  have l: "length [broken_probe] = 1" by simp
  from c have c': "map pr_payload [broken_probe] = take 1 (filter (\<lambda>pl. \<not> is_time_payload pl) test_payloads)"
    unfolding l .
  have i: "id_scan = scan (7 / 10) error_net (\<lambda>u. []) ''http://h/p?id=1''"
    unfolding id_scan_def by simp
  have k': "distinct (map fst ([] :: (string \<times> string) list))" by simp
  show ?thesis unfolding i by (intro conjI broken_run k' a' c' d e)
qed

text \<open>
  C2 as stated fails for the service scanner: against a server that answers the probes of
  the first two payloads, both error-based, with a database error, the scan of
  \<open>http://h/p?id=1\<close> runs all ten tests and emits two error-based findings for the
  parameter \<open>id\<close>.
\<close>

theorem scan_repeats_strategy_counterexample:
  "length (filter (\<lambda>f. f_parameter f = ''id'' \<and> f_vulnerability_type f = ERROR_BASED_SQLI)
             (vulnerabilities id_scan)) = 2
   \<and> total_tests id_scan = 10"
  unfolding id_scan_def by code_simp


section \<open>The crawler: \<open>plugins/crawl/web_spider.py\<close>\<close>

subsection \<open>Options, libraries and state\<close>

text \<open>
  The options of a scanner are a dictionary; the spider reads \<open>max_depth\<close> (default 3),
  \<open>max_urls\<close> (default 100) and \<open>follow_robots\<close> (default \<open>True\<close>) from it.
\<close>

record spider_options =
  max_depth :: int
  max_urls :: int
  follow_robots :: bool

definition default_options :: spider_options where
  "default_options = \<lparr>max_depth = 3, max_urls = 100, follow_robots = True\<rparr>"

text \<open>
  What the spider takes from libraries is a parameter: \<open>tldextract.extract\<close> (the
  subdomain, domain and suffix of a host), \<open>urllib.parse.urljoin\<close> (which may raise),
  the matches of the spider's three regular expressions in a page (the URL texts, in the
  order in which \<open>_extract_urls\<close> goes through them), the \<open>action\<close> attributes of the
  forms that BeautifulSoup finds in a page (the empty text for a form without one), and
  the order in which Python lists the elements of a set.
\<close>

record libraries =
  tld_extract :: "string \<Rightarrow> string \<times> string \<times> string"
  urljoin :: "string \<Rightarrow> string \<Rightarrow> py_error + string"
  url_matches :: "string \<Rightarrow> string list"
  form_actions :: "string \<Rightarrow> string list"
  listing :: "string list \<Rightarrow> string list"

text \<open>
  The state of a spider. The sets \<open>found_urls\<close> and \<open>visited_urls\<close> are lists without
  repetition. Two fields are not in the source: \<open>sent\<close> counts the calls of
  \<open>send_request\<close>, and \<open>fetched\<close> lists the URLs that the spider has passed to
  \<open>send_request\<close>, in the order of the calls.
\<close>

record spider =
  found_urls :: "string list"
  visited_urls :: "string list"
  found_forms :: "string list"
  robots_txt_rules :: "(string \<times> string list) list"
  robots_txt_checked :: bool
  base_domain :: string
  target_scheme :: string
  site_url :: string
  main_domain :: string
  sent :: nat
  fetched :: "string list"

text \<open>
  The network: the answer to request number \<open>k\<close> for a URL, \<open>None\<close> when \<open>send_request\<close>
  raised.
\<close>

type_synonym web = "nat \<Rightarrow> string \<Rightarrow> http_response option"

definition ignored_extensions :: "string list" where
  "ignored_extensions = [
     ''jpg'', ''jpeg'', ''png'', ''gif'', ''bmp'', ''ico'', ''svg'', ''webp'',
     ''css'', ''less'', ''scss'', ''sass'',
     ''js'', ''map'', ''json'', ''xml'', ''woff'', ''woff2'', ''ttf'', ''eot'',
     ''pdf'', ''doc'', ''docx'', ''xls'', ''xlsx'', ''ppt'', ''pptx'',
     ''zip'', ''rar'', ''tar'', ''gz'', ''7z'',
     ''mp3'', ''mp4'', ''avi'', ''mov'', ''wmv'', ''flv'', ''ogg'', ''webm'',
     ''exe'', ''dll'', ''bin'', ''dat'', ''dmg'', ''iso'',
     ''jar'', ''war'', ''ear'',
     ''swf'', ''torrent'']"

definition ignored_dirs :: "string list" where
  "ignored_dirs = [
     ''__MACOSX'',
     ''.git'', ''.svn'', ''.hg'', ''.bzr'', ''.idea'', ''.vscode'',
     ''node_modules'', ''bower_components'', ''vendor'',
     ''logs'', ''log'', ''temp'', ''tmp'',
     ''cache'', ''caches'']"

subsection \<open>\<open>robots.txt\<close>\<close>

text \<open>
  \<open>_parse_robots_txt\<close> goes through the lines with a current agent, \<open>*\<close> at the start.
  A \<open>Disallow\<close> line appends its value to the list of the current agent. That list is
  always there, so the branch for a missing key (a \<open>KeyError\<close> in the source) is never
  taken: see \<open>robots_line_agent\<close> below.
\<close>

definition robots_line ::
    "string \<times> (string \<times> string list) list \<Rightarrow> string \<Rightarrow> string \<times> (string \<times> string list) list" where
  "robots_line acc raw_line =
     (case acc of (current_agent, rules) \<Rightarrow>
        (let line = strip raw_line
         in if line = [] \<or> startswith line ''#'' then acc
            else if CHR '':'' \<in> set line then
              (let directive = strip (lower (before CHR '':'' line));
                   v = strip (after CHR '':'' line)
               in if directive = ''user-agent'' then
                    (v, if v \<in> fst ` set rules then rules else rules @ [(v, [])])
                  else if directive = ''disallow'' then
                    (if v \<noteq> [] then
                       (case map_of rules current_agent of
                          Some disallowed \<Rightarrow> (current_agent, dict_set rules current_agent (disallowed @ [v]))
                        | None \<Rightarrow> acc)
                     else acc)
                  else acc)
            else acc))"

definition parse_robots_txt :: "string \<Rightarrow> (string \<times> string list) list" where
  "parse_robots_txt robots_txt =
     snd (foldl robots_line (''*'', [(''*'', [])]) (split_on newline robots_txt))"

text \<open>\<open>self.robots_txt_rules.get("*", [])\<close>\<close>

definition star_rules :: "(string \<times> string list) list \<Rightarrow> string list" where
  "star_rules rules = (case map_of rules ''*'' of None \<Rightarrow> [] | Some disallowed \<Rightarrow> disallowed)"

definition is_allowed_by_robots :: "spider_options \<Rightarrow> spider \<Rightarrow> string \<Rightarrow> bool" where
  "is_allowed_by_robots opts sp url =
     (if \<not> follow_robots opts then True
      else if \<not> robots_txt_checked sp \<or> robots_txt_rules sp = [] then True
      else (case urlparse url of
              Inl e \<Rightarrow> True
            | Inr parsed_url \<Rightarrow>
                \<not> list_ex (\<lambda>disallow. startswith (path parsed_url) disallow)
                     (star_rules (robots_txt_rules sp))))"

definition check_robots_txt :: "web \<Rightarrow> spider \<Rightarrow> spider" where
  "check_robots_txt net sp =
     (if robots_txt_checked sp then sp
      else (case net (sent sp) (site_url sp @ ''/robots.txt'') of
              None \<Rightarrow> sp\<lparr>robots_txt_checked := True, sent := sent sp + 1,
                         fetched := fetched sp @ [site_url sp @ ''/robots.txt'']\<rparr>
            | Some response \<Rightarrow>
                (case resp_body response of
                   None \<Rightarrow> sp\<lparr>robots_txt_checked := True, sent := sent sp + 1,
                              fetched := fetched sp @ [site_url sp @ ''/robots.txt'']\<rparr>
                 | Some body \<Rightarrow>
                     if resp_status response = 200 \<and> body \<noteq> []
                     then sp\<lparr>robots_txt_rules := parse_robots_txt body,
                             robots_txt_checked := True, sent := sent sp + 1,
                             fetched := fetched sp @ [site_url sp @ ''/robots.txt'']\<rparr>
                     else sp\<lparr>robots_txt_checked := True, sent := sent sp + 1,
                             fetched := fetched sp @ [site_url sp @ ''/robots.txt'']\<rparr>)))"

subsection \<open>Which URLs are followed\<close>

definition should_visit :: "spider_options \<Rightarrow> spider \<Rightarrow> string \<Rightarrow> bool" where
  "should_visit opts sp url =
     (if \<not> is_allowed_by_robots opts sp url then False
      else (case urlparse url of
              Inl e \<Rightarrow> False
            | Inr parsed_url \<Rightarrow>
                if netloc parsed_url \<noteq> [] \<and> netloc parsed_url \<noteq> base_domain sp then False
                else (let p = lower (path parsed_url)
                      in if CHR ''.'' \<in> set p \<and> last (split_on CHR ''.'' p) \<in> set ignored_extensions
                         then False
                         else if list_ex (\<lambda>part. part \<in> set ignored_dirs) (split_on CHR ''/'' p)
                         then False
                         else True)))"

definition domain_of :: "string \<times> string \<times> string \<Rightarrow> string" where
  "domain_of domain_info =
     (case domain_info of (subdomain, domain_name, public_suffix) \<Rightarrow>
        if subdomain \<noteq> [] then subdomain @ ''.'' @ domain_name @ ''.'' @ public_suffix
        else domain_name @ ''.'' @ public_suffix)"

definition is_same_site :: "libraries \<Rightarrow> spider \<Rightarrow> string \<Rightarrow> bool" where
  "is_same_site lib sp url =
     (case urlparse url of
        Inl e \<Rightarrow> False
      | Inr parsed_url \<Rightarrow> domain_of (tld_extract lib (netloc parsed_url)) = main_domain sp)"

definition make_absolute_url :: "libraries \<Rightarrow> spider \<Rightarrow> string \<Rightarrow> string \<Rightarrow> string option" where
  "make_absolute_url lib sp url page_url =
     (if url = [] \<or> list_ex (\<lambda>p. startswith url p)
                      [''#'', ''javascript:'', ''data:'', ''mailto:'', ''tel:'', ''sms:'', ''ftp:'']
      then None
      else (case urljoin lib page_url url of
              Inl e \<Rightarrow> None
            | Inr joined \<Rightarrow>
                (let without_fragment = before CHR ''#'' joined;
                     abs_url = (if endswith without_fragment ''/'' then butlast without_fragment
                                else without_fragment)
                 in case urlparse abs_url of
                      Inl e \<Rightarrow> None
                    | Inr parsed_url \<Rightarrow>
                        (let abs_url' = (if scheme parsed_url = [] then target_scheme sp @ ''://'' @ abs_url
                                         else abs_url)
                         in if \<not> is_same_site lib sp abs_url' then None else Some abs_url'))))"

definition extract_urls :: "libraries \<Rightarrow> spider \<Rightarrow> string \<Rightarrow> string \<Rightarrow> string list" where
  "extract_urls lib sp html page_url =
     listing lib (remdups (filter (\<lambda>u. u \<noteq> [])
       (List.map_filter (\<lambda>u. make_absolute_url lib sp (strip u) page_url) (url_matches lib html))))"

text \<open>\<open>extract_forms\<close> of \<open>core/base_scanner.py\<close>, as far as the action of a form goes.\<close>

definition form_action_url :: "libraries \<Rightarrow> string \<Rightarrow> string \<Rightarrow> py_error + string" where
  "form_action_url lib page_url form_action =
     (case (if form_action \<noteq> [] \<and> \<not> (startswith form_action ''http://'' \<or> startswith form_action ''https://'')
            then (if startswith form_action ''/''
                  then (case urlparse page_url of
                          Inl e \<Rightarrow> Inl e
                        | Inr parsed_url \<Rightarrow> Inr (scheme parsed_url @ ''://'' @ netloc parsed_url @ form_action))
                  else urljoin lib page_url form_action)
            else Inr form_action) of
        Inl e \<Rightarrow> Inl e
      | Inr resolved \<Rightarrow> Inr (if resolved = [] then page_url else resolved))"

fun collect :: "(py_error + 'a) list \<Rightarrow> py_error + 'a list" where
  "collect [] = Inr []"
| "collect (Inl e # rs) = Inl e"
| "collect (Inr x # rs) = (case collect rs of Inl e \<Rightarrow> Inl e | Inr xs \<Rightarrow> Inr (x # xs))"

definition extract_forms :: "libraries \<Rightarrow> string \<Rightarrow> string \<Rightarrow> py_error + string list" where
  "extract_forms lib html page_url = collect (map (form_action_url lib page_url) (form_actions lib html))"

subsection \<open>\<open>_visit_url\<close> and \<open>scan\<close>\<close>

definition add_new_url :: "spider_options \<Rightarrow> spider \<Rightarrow> string \<Rightarrow> spider" where
  "add_new_url opts sp new_url =
     (if new_url \<notin> set (found_urls sp) \<and> new_url \<notin> set (visited_urls sp) \<and> should_visit opts sp new_url
      then sp\<lparr>found_urls := found_urls sp @ [new_url]\<rparr>
      else sp)"

definition add_form :: "spider \<Rightarrow> string \<Rightarrow> spider" where
  "add_form sp form_action =
     (let sp' = (if form_action \<noteq> [] \<and> form_action \<notin> set (found_urls sp)
                    \<and> form_action \<notin> set (visited_urls sp)
                 then sp\<lparr>found_urls := found_urls sp @ [form_action]\<rparr>
                 else sp)
      in sp'\<lparr>found_forms := found_forms sp' @ [form_action]\<rparr>)"

definition visit_url :: "libraries \<Rightarrow> spider_options \<Rightarrow> web \<Rightarrow> spider \<Rightarrow> string \<Rightarrow> spider" where
  "visit_url lib opts net sp url =
     (if url \<in> set (visited_urls sp) then sp
      else (let sp1 = sp\<lparr>visited_urls := visited_urls sp @ [url]\<rparr>
            in if \<not> is_allowed_by_robots opts sp1 url then sp1
               else (let sp2 = sp1\<lparr>sent := sent sp1 + 1, fetched := fetched sp1 @ [url]\<rparr>
                     in case net (sent sp1) url of
                          None \<Rightarrow> sp2
                        | Some response \<Rightarrow>
                            (let content_type = (case map_of (resp_headers response) ''content-type'' of
                                                   None \<Rightarrow> [] | Some t \<Rightarrow> t);
                                 is_html = (contains ''text/html'' (lower content_type)
                                            \<or> contains ''application/xhtml+xml'' (lower content_type))
                             in case resp_body response of
                                  None \<Rightarrow> sp2
                                | Some body \<Rightarrow>
                                    if is_html \<and> body \<noteq> [] then
                                      (let sp3 = foldl (add_new_url opts) sp2 (extract_urls lib sp2 body url)
                                       in case extract_forms lib body url of
                                            Inl e \<Rightarrow> sp3
                                          | Inr forms \<Rightarrow> foldl add_form sp3 forms)
                                    else sp2))))"

text \<open>\<open>xs[:k]\<close>\<close>

definition slice_to :: "int \<Rightarrow> 'a list \<Rightarrow> 'a list" where
  "slice_to k xs = (if k \<ge> 0 then take (nat k) xs else take (length xs - nat (- k)) xs)"

text \<open>
  The loop over the depths, with the number of depths that are left. The tasks of a depth
  run one after the other here. In the source they run interleaved: each is suspended in
  \<open>send_request\<close> and handles its response when it arrives; the sets that result are the
  same, since a URL is added under conditions that do not depend on the tasks of the same
  depth.
\<close>

fun crawl :: "libraries \<Rightarrow> spider_options \<Rightarrow> web \<Rightarrow> nat \<Rightarrow> int \<Rightarrow> spider \<Rightarrow> spider" where
  "crawl lib opts net 0 urls_processed sp = sp"
| "crawl lib opts net (Suc depths) urls_processed sp =
     (let pending = listing lib (filter (\<lambda>u. u \<notin> set (visited_urls sp)) (found_urls sp))
      in if pending = [] then sp
         else (let urls_to_visit = (if int (length pending) > max_urls opts - urls_processed
                                    then slice_to (max_urls opts - urls_processed) pending
                                    else pending);
                   sp' = foldl (visit_url lib opts net) sp (filter (should_visit opts sp) urls_to_visit);
                   urls_processed' = urls_processed + int (length urls_to_visit)
               in if urls_processed' \<ge> max_urls opts then sp'
                  else crawl lib opts net depths urls_processed' sp'))"

text \<open>
  The start of \<open>scan\<close> on a new spider, up to the loop: \<open>urlparse\<close> of the target may
  raise.
\<close>

definition start_scan :: "libraries \<Rightarrow> web \<Rightarrow> string \<Rightarrow> py_error + spider" where
  "start_scan lib net target_url =
     (case urlparse target_url of
        Inl e \<Rightarrow> Inl e
      | Inr parsed_url \<Rightarrow>
          (let sp = \<lparr>found_urls = [], visited_urls = [], found_forms = [],
                     robots_txt_rules = [], robots_txt_checked = False,
                     base_domain = netloc parsed_url, target_scheme = scheme parsed_url,
                     site_url = scheme parsed_url @ ''://'' @ netloc parsed_url,
                     main_domain = domain_of (tld_extract lib (netloc parsed_url)),
                     sent = 0, fetched = []\<rparr>;
               sp' = check_robots_txt net sp
           in Inr (sp'\<lparr>found_urls := [target_url]\<rparr>)))"

definition spider_scan ::
    "libraries \<Rightarrow> spider_options \<Rightarrow> web \<Rightarrow> string \<Rightarrow> py_error + string list \<times> spider" where
  "spider_scan lib opts net target_url =
     (case start_scan lib net target_url of
        Inl e \<Rightarrow> Inl e
      | Inr sp \<Rightarrow>
          (let sp' = crawl lib opts net (nat (max_depth opts + 1)) 0 sp;
               kept = filter (should_visit opts sp') (found_urls sp')
           in Inr (listing lib kept, sp'\<lparr>found_urls := kept\<rparr>)))"

subsection \<open>A small site\<close>

definition example_tld :: "string \<Rightarrow> string \<times> string \<times> string" where
  "example_tld host =
     (if host = ''example.com'' then ([], ''example'', ''com'')
      else if host = ''attacker.org'' then ([], ''attacker'', ''org'')
      else ([], host, []))"

definition example_libraries :: "(string \<Rightarrow> string list) \<Rightarrow> (string \<Rightarrow> string list) \<Rightarrow> libraries" where
  "example_libraries matches actions =
     \<lparr>tld_extract = example_tld, urljoin = (\<lambda>page_url url. Inr url),
      url_matches = matches, form_actions = actions, listing = (\<lambda>urls. urls)\<rparr>"

definition html_page :: "string \<Rightarrow> http_response" where
  "html_page body = \<lparr>resp_status = 200, resp_headers = [(''content-type'', ''text/html; charset=utf-8'')],
                     resp_body = Some body, time_ms = 20\<rparr>"





subsection \<open>The spider and \<open>robots.txt\<close>\<close>



lemma robots_line_agent:
  assumes "robots_line (agent, rules) raw_line = (agent', rules')"
    and "agent \<in> fst ` set rules"
  shows "agent' \<in> fst ` set rules'"
proof -
  have k: "fst ` set (dict_set rules a v) = insert a (fst ` set rules)" for a and v :: "string list"
    by (rule dict_set_key_set)
  from assms show ?thesis
    unfolding robots_line_def Let_def
    by (auto simp: k split: if_splits option.splits)
qed




lemma add_new_url_fields [simp]:
  "robots_txt_checked (add_new_url opts sp u) = robots_txt_checked sp"
  "robots_txt_rules (add_new_url opts sp u) = robots_txt_rules sp"
  "fetched (add_new_url opts sp u) = fetched sp"
  "sent (add_new_url opts sp u) = sent sp"
  by (simp_all add: add_new_url_def)

lemma add_form_fields [simp]:
  "robots_txt_checked (add_form sp a) = robots_txt_checked sp"
  "robots_txt_rules (add_form sp a) = robots_txt_rules sp"
  "fetched (add_form sp a) = fetched sp"
  "sent (add_form sp a) = sent sp"
  by (simp_all add: add_form_def Let_def)
















subsection \<open>The spider and the scope of a scan\<close>

text \<open>
  A URL taken from a link is added to \<open>found_urls\<close> only when \<open>_make_absolute_url\<close>
  returned it, which checks \<open>_is_same_site\<close>, and when \<open>_should_visit\<close> holds of it.
\<close>

lemma make_absolute_url_same_site:
  "make_absolute_url lib sp url page_url = Some abs_url \<Longrightarrow> is_same_site lib sp abs_url"
  unfolding make_absolute_url_def Let_def
  by (auto split: if_splits sum.splits)

text \<open>
  A page of \<open>example.com\<close> with two forms: one posts to another site, one has a
  \<open>mailto:\<close> action. The site has no \<open>robots.txt\<close>. The spider's first regular expression
  matches the two \<open>action\<close> attributes, and BeautifulSoup finds the two forms; \<open>urljoin\<close>
  returns a URL with a scheme of its own as it is.
\<close>

definition shop_page :: string where
  "shop_page = ''<form action='' @ [dq] @ ''http://attacker.org/collect'' @ [dq] @ '' method='' @ [dq] @ ''post'' @ [dq]
               @ ''><input name='' @ [dq] @ ''card'' @ [dq] @ ''></form>''
               @ ''<form action='' @ [dq] @ ''mailto:admin@example.com'' @ [dq]
               @ ''><input name='' @ [dq] @ ''text'' @ [dq] @ ''></form>''"

definition shop_actions :: "string \<Rightarrow> string list" where
  "shop_actions html = (if html = shop_page then [''http://attacker.org/collect'', ''mailto:admin@example.com'']
                        else [])"

definition shop_site :: web where
  "shop_site k url =
     (if url = ''http://example.com/robots.txt''
      then Some \<lparr>resp_status = 404, resp_headers = [(''content-type'', ''text/html'')],
                 resp_body = Some ''not found'', time_ms = 20\<rparr>
      else if url = ''http://example.com'' then Some (html_page shop_page)
      else None)"

definition shop_libraries :: libraries where
  "shop_libraries = example_libraries shop_actions shop_actions"

text \<open>
  C3 fails. \<open>_visit_url\<close> puts the action of a form into \<open>found_urls\<close> without
  \<open>_is_same_site\<close> and without \<open>_should_visit\<close>, which it applies to the URLs of links.
  After the visit of the seed \<open>http://example.com\<close> the set holds
  \<open>http://attacker.org/collect\<close>, which is not of the same site; it stays there until the
  filter at the end of the scan removes it. The action \<open>mailto:admin@example.com\<close> has no
  network location, so \<open>_should_visit\<close> lets it pass: the spider visits it, passes it to
  \<open>send_request\<close>, and returns it in the result of the scan, although \<open>_is_same_site\<close>
  does not hold of it.
\<close>

theorem form_action_leaves_scope:
  "(case start_scan shop_libraries shop_site ''http://example.com'' of
      Inl e \<Rightarrow> False
    | Inr sp \<Rightarrow>
        main_domain sp = ''example.com''
        \<and> ''http://attacker.org/collect''
             \<in> set (found_urls (visit_url shop_libraries default_options shop_site sp ''http://example.com''))
        \<and> \<not> is_same_site shop_libraries sp ''http://attacker.org/collect''
        \<and> make_absolute_url shop_libraries sp ''http://attacker.org/collect'' ''http://example.com'' = None)
   \<and> (case spider_scan shop_libraries default_options shop_site ''http://example.com'' of
         Inl e \<Rightarrow> False
       | Inr (urls, sp) \<Rightarrow>
           urls = [''http://example.com'', ''mailto:admin@example.com'']
           \<and> ''mailto:admin@example.com'' \<in> set (visited_urls sp)
           \<and> ''mailto:admin@example.com'' \<in> set (fetched sp)
           \<and> \<not> is_same_site shop_libraries sp ''mailto:admin@example.com'')"
proof -
  have a: "case start_scan shop_libraries shop_site ''http://example.com'' of
      Inl e \<Rightarrow> False
    | Inr sp \<Rightarrow>
        main_domain sp = ''example.com''
        \<and> ''http://attacker.org/collect''
             \<in> set (found_urls (visit_url shop_libraries default_options shop_site sp ''http://example.com''))
        \<and> \<not> is_same_site shop_libraries sp ''http://attacker.org/collect''
        \<and> make_absolute_url shop_libraries sp ''http://attacker.org/collect'' ''http://example.com'' = None"
    by code_simp
  have b: "case spider_scan shop_libraries default_options shop_site ''http://example.com'' of
         Inl e \<Rightarrow> False
       | Inr (urls, sp) \<Rightarrow>
           urls = [''http://example.com'', ''mailto:admin@example.com'']
           \<and> ''mailto:admin@example.com'' \<in> set (visited_urls sp)
           \<and> ''mailto:admin@example.com'' \<in> set (fetched sp)
           \<and> \<not> is_same_site shop_libraries sp ''mailto:admin@example.com''"
    by code_simp
  from a b show ?thesis by (rule conjI)
qed

end
